theory Spec2Isabelle
  imports Main "HOL-Library.Word"
begin

section \<open>Machine integers, errors\<close>

text \<open>
  Go's \<open>uint64\<close> and \<open>uint32\<close> are words: addition and subtraction wrap around.
  \<open>time.Time\<close> and \<open>time.Duration\<close> are counted in nanoseconds as integers; the
  clock reading \<open>time.Now()\<close> is an argument of every function that reads it.
\<close>

type_synonym u64 = "64 word"
type_synonym u32 = "32 word"

text \<open>
  A Go \<open>error\<close> value: \<open>errors.New\<close>, \<open>errors.Errorf\<close> and the errors of the
  collaborators are \<open>Errorf\<close> (format string and numeric arguments),
  \<open>errors.WithMessage\<close> and \<open>errors.WithMessagef\<close> wrap an error, and a run-time
  panic (index out of range) is \<open>Panic\<close>.
\<close>

datatype error =
    Errorf string "u64 list"
  | WithMessagef error string "u64 list"
  | Panic string

abbreviation WithMessage :: "error \<Rightarrow> string \<Rightarrow> error" where
  "WithMessage err msg \<equiv> WithMessagef err msg []"

text \<open>\<open>logrus.Fatal\<close> logs and exits the process: nothing runs after it.\<close>

datatype fatal = Fatal error string

section \<open>Stall monitor (package monitor)\<close>

text \<open>
  \<open>health.Counter\<close> belongs to an external library; the monitor only feeds it one
  result per check. The field \<open>healthStatus\<close> holds the results fed so far, oldest
  first: \<open>onSuccess\<close> appends \<open>Success\<close>, \<open>onFailure\<close> appends \<open>Failure\<close> with the
  error and the heights it was called with.
\<close>

datatype report = Success | Failure error "u64 list"

record Monitor =
  MaxStalledDuration :: int
  MaxAllowedLag :: u64
  currentHeight :: u64
  lastAdvancedAt :: int
  healthStatus :: "report list"

definition errSyncHeightNotGrowing :: error where
  "errSyncHeightNotGrowing = Errorf ''sync height not growing'' []"

definition Update :: "int \<Rightarrow> u64 \<Rightarrow> Monitor \<Rightarrow> Monitor" where
  "Update now newHeight m =
     (let m1 = (if newHeight > currentHeight m then m\<lparr>lastAdvancedAt := now\<rparr> else m)
      in m1\<lparr>currentHeight := newHeight\<rparr>)"

definition reset_monitor :: "int \<Rightarrow> Monitor \<Rightarrow> Monitor" where
  "reset_monitor now m = m\<lparr>currentHeight := 0, lastAdvancedAt := now\<rparr>"

definition onSuccess :: "Monitor \<Rightarrow> Monitor" where
  "onSuccess m = m\<lparr>healthStatus := healthStatus m @ [Success]\<rparr>"

definition onFailure :: "error \<Rightarrow> u64 list \<Rightarrow> Monitor \<Rightarrow> Monitor" where
  "onFailure err heights m = m\<lparr>healthStatus := healthStatus m @ [Failure err heights]\<rparr>"

text \<open>
  \<open>checkOnce\<close>: the first argument is what \<open>m.getLatestHeight()\<close> returned, the
  second the clock reading of \<open>time.Since\<close>.
\<close>

definition checkOnce :: "error + u64 \<Rightarrow> int \<Rightarrow> Monitor \<Rightarrow> Monitor" where
  "checkOnce getLatestHeight now m =
     (case getLatestHeight of
        Inl err \<Rightarrow> onFailure (WithMessage err ''fetch latest height error'') [] m
      | Inr latestHeight \<Rightarrow>
          if now - lastAdvancedAt m < MaxStalledDuration m then onSuccess m
          else if currentHeight m + MaxAllowedLag m - 1 < latestHeight
            then onFailure errSyncHeightNotGrowing [currentHeight m, latestHeight] m
          else onSuccess m)"

text \<open>The result the last check reported.\<close>

definition reported :: "Monitor \<Rightarrow> Monitor \<Rightarrow> report option" where
  "reported m m' =
     (if length (healthStatus m') = Suc (length (healthStatus m))
        \<and> take (length (healthStatus m)) (healthStatus m') = healthStatus m
      then Some (last (healthStatus m')) else None)"

section \<open>Epoch sync window\<close>

text \<open>
  Modelled from the spec: the type \<open>epochWindow\<close> and its methods are used by the
  syncer but are not among the source files. The spec (sections 3 and 4.1) gives the
  window as \<open>{from, to}\<close>, the inclusive range of epochs not yet consumed, with a
  configured decay threshold, and states each operation; the definitions follow its
  words, on \<open>uint64\<close> values (\<open>-\<close> and \<open>+\<close> wrap around) and, for the batch size, the
  \<open>uint32\<close> the syncer passes. The zero state is \<open>{0, 0}\<close>.
\<close>

record epochWindow =
  threshold :: u64
  epochFrom :: u64
  epochTo :: u64

definition newEpochWindow :: "u64 \<Rightarrow> epochWindow" where
  "newEpochWindow decay = \<lparr>threshold = decay, epochFrom = 0, epochTo = 0\<rparr>"

definition isEmpty :: "epochWindow \<Rightarrow> bool" where
  "isEmpty w = (epochTo w < epochFrom w)"

definition peekWillPivotSwitch :: "epochWindow \<Rightarrow> u64 \<Rightarrow> bool" where
  "peekWillPivotSwitch w newEpoch = (newEpoch \<le> epochTo w)"

definition peekWillOverflow :: "epochWindow \<Rightarrow> u64 \<Rightarrow> bool" where
  "peekWillOverflow w newEpoch = (threshold w < newEpoch - epochFrom w)"

definition expandTo :: "epochWindow \<Rightarrow> u64 \<Rightarrow> epochWindow" where
  "expandTo w newEpoch = (if epochTo w < newEpoch then w\<lparr>epochTo := newEpoch\<rparr> else w)"

definition expandFrom :: "epochWindow \<Rightarrow> u64 \<Rightarrow> epochWindow" where
  "expandFrom w newEpoch = w\<lparr>epochFrom := newEpoch, epochTo := newEpoch\<rparr>"

definition reset :: "epochWindow \<Rightarrow> u64 \<Rightarrow> u64 \<Rightarrow> epochWindow" where
  "reset w from' to' = w\<lparr>epochFrom := from', epochTo := to'\<rparr>"

definition peekShrinkFrom :: "epochWindow \<Rightarrow> u32 \<Rightarrow> u64 \<times> u32" where
  "peekShrinkFrom w maxCount =
     (epochFrom w,
      if isEmpty w then 0
      else ucast (min (ucast maxCount :: u64) (epochTo w - epochFrom w + 1)))"

definition shrinkFrom :: "epochWindow \<Rightarrow> u32 \<Rightarrow> (u64 \<times> u32) \<times> epochWindow" where
  "shrinkFrom w maxCount =
     (case peekShrinkFrom w maxCount of
        (start, count) \<Rightarrow> ((start, count), w\<lparr>epochFrom := epochFrom w + ucast count\<rparr>))"

section \<open>Cache syncer (package sync)\<close>

text \<open>
  The collaborators of the syncer are interfaces: the data source
  (\<open>store.QueryEpochData\<close> on the chain client), the cache store
  (\<open>store.CacheStore\<close>) and the check \<open>ensureStoreEpochDataOk\<close>. They are
  parameters of the model: each is a function of the cache store's state \<open>'c\<close>
  returning its result and the state it leaves; \<open>'d\<close> is the epoch data.
\<close>

record ('c, 'd) collaborators =
  QueryEpochData :: "u64 \<Rightarrow> error + 'd"
  ensureStoreEpochDataOk :: "'c \<Rightarrow> error option \<times> 'c"
  GetGlobalEpochRange :: "'c \<Rightarrow> error + (u64 \<times> u64)"
  IsRecordNotFound :: "error \<Rightarrow> bool"
  cachePushn :: "'d list \<Rightarrow> 'c \<Rightarrow> error option \<times> 'c"
  cachePopn :: "u64 \<Rightarrow> 'c \<Rightarrow> error option \<times> 'c"
  cacheFlush :: "'c \<Rightarrow> error option \<times> 'c"

text \<open>
  The syncer's state. \<open>cacheCalls\<close> is not a field of the Go struct: it lists the
  mutating calls made on the cache store so far, oldest first, so that "calls Flush
  once" can be stated.
\<close>

datatype 'd cacheCall = CallPushn "'d list" | CallPopn u64 | CallFlush

record ('c, 'd) KVCacheSyncer =
  cache :: 'c
  maxSyncEpochs :: u64
  syncWindow :: epochWindow
  cacheCalls :: "'d cacheCall list"

definition decayedEpochGapThreshold :: u64 where
  "decayedEpochGapThreshold = 100000"

definition syncIntervalNormal :: int where
  "syncIntervalNormal = 500 * 1000000"

definition syncIntervalCatchUp :: int where
  "syncIntervalCatchUp = 100 * 1000000"

definition mustLoadLastSyncEpoch ::
  "('c, 'd) collaborators \<Rightarrow> ('c, 'd) KVCacheSyncer \<Rightarrow> fatal + ('c, 'd) KVCacheSyncer" where
  "mustLoadLastSyncEpoch env syncer =
     (case GetGlobalEpochRange env (cache syncer) of
        Inr (minEpoch, maxEpoch) \<Rightarrow>
          Inr (syncer\<lparr>syncWindow := reset (syncWindow syncer) (maxEpoch + 1) maxEpoch\<rparr>)
      | Inl err \<Rightarrow>
          if \<not> IsRecordNotFound env err
          then Inl (Fatal err ''Cache syncer failed to get global epoch range from cache store'')
          else Inr syncer)"

definition NewKVCacheSyncer ::
  "('c, 'd) collaborators \<Rightarrow> u64 \<Rightarrow> 'c \<Rightarrow> fatal + ('c, 'd) KVCacheSyncer" where
  "NewKVCacheSyncer env maxEpochs c =
     (case ensureStoreEpochDataOk env c of
        (Some err, c') \<Rightarrow>
          Inl (Fatal err ''Cache syncer failed to ensure latest state epoch data not reverted'')
      | (None, c') \<Rightarrow>
          mustLoadLastSyncEpoch env
            \<lparr>cache = c', maxSyncEpochs = maxEpochs,
             syncWindow = newEpochWindow decayedEpochGapThreshold, cacheCalls = []\<rparr>)"

definition pivotSwitchRevert ::
  "('c, 'd) collaborators \<Rightarrow> u64 \<Rightarrow> ('c, 'd) KVCacheSyncer
     \<Rightarrow> error option \<times> ('c, 'd) KVCacheSyncer" where
  "pivotSwitchRevert env revertTo syncer =
     (case cachePopn env revertTo (cache syncer) of
        (res, c') \<Rightarrow>
          (res, syncer\<lparr>cache := c', cacheCalls := cacheCalls syncer @ [CallPopn revertTo]\<rparr>))"

definition handleNewEpoch ::
  "('c, 'd) collaborators \<Rightarrow> u64 \<Rightarrow> ('c, 'd) KVCacheSyncer \<Rightarrow> ('c, 'd) KVCacheSyncer" where
  "handleNewEpoch env newEpoch syncer =
     (if peekWillPivotSwitch (syncWindow syncer) newEpoch then
        (case pivotSwitchRevert env newEpoch syncer of
           (None, s1) \<Rightarrow> s1\<lparr>syncWindow := expandFrom (syncWindow s1) newEpoch\<rparr>
         | (Some err, s1) \<Rightarrow> s1)
      else if peekWillOverflow (syncWindow syncer) newEpoch then
        (case cacheFlush env (cache syncer) of
           (None, c') \<Rightarrow>
             syncer\<lparr>cache := c', cacheCalls := cacheCalls syncer @ [CallFlush],
                    syncWindow := reset (syncWindow syncer) newEpoch newEpoch\<rparr>
         | (Some err, c') \<Rightarrow>
             syncer\<lparr>cache := c', cacheCalls := cacheCalls syncer @ [CallFlush]\<rparr>)
      else syncer\<lparr>syncWindow := expandTo (syncWindow syncer) newEpoch\<rparr>)"

text \<open>
  The fetch loop of \<open>syncOnce\<close>, over the values \<open>i = 0, ..., syncSize - 1\<close>: it
  stops at the first fetch that fails.
\<close>

fun queryLoop :: "(u64 \<Rightarrow> error + 'd) \<Rightarrow> u64 \<Rightarrow> u32 list \<Rightarrow> 'd list \<Rightarrow> error + 'd list" where
  "queryLoop query syncFrom [] epochDataSlice = Inr epochDataSlice"
| "queryLoop query syncFrom (i # rest) epochDataSlice =
     (case query (syncFrom + ucast i) of
        Inl err \<Rightarrow>
          Inl (WithMessagef err ''failed to query epoch data for epoch %v'' [syncFrom + ucast i])
      | Inr data \<Rightarrow> queryLoop query syncFrom rest (epochDataSlice @ [data]))"

definition loopIndices :: "u32 \<Rightarrow> u32 list" where
  "loopIndices syncSize = map of_nat [0 ..< unat syncSize]"

definition syncOnce ::
  "('c, 'd) collaborators \<Rightarrow> ('c, 'd) KVCacheSyncer
     \<Rightarrow> (error + bool) \<times> ('c, 'd) KVCacheSyncer" where
  "syncOnce env syncer =
     (if isEmpty (syncWindow syncer) then (Inr True, syncer)
      else
        (case peekShrinkFrom (syncWindow syncer) (ucast (maxSyncEpochs syncer)) of
           (syncFrom, syncSize) \<Rightarrow>
             (case queryLoop (QueryEpochData env) syncFrom (loopIndices syncSize) [] of
                Inl err \<Rightarrow> (Inl err, syncer)
              | Inr epochDataSlice \<Rightarrow>
                  (case cachePushn env epochDataSlice (cache syncer) of
                     (Some err, c') \<Rightarrow>
                       (Inl (WithMessage err ''failed to write epoch data to cache store''),
                        syncer\<lparr>cache := c',
                               cacheCalls := cacheCalls syncer @ [CallPushn epochDataSlice]\<rparr>)
                   | (None, c') \<Rightarrow>
                       (case shrinkFrom (syncWindow syncer) (ucast (maxSyncEpochs syncer)) of
                          (_, w') \<Rightarrow>
                            (Inr (isEmpty w'),
                             syncer\<lparr>cache := c',
                                    cacheCalls := cacheCalls syncer @ [CallPushn epochDataSlice],
                                    syncWindow := w'\<rparr>))))))"

text \<open>
  \<open>doTicker\<close> returns the error of the attempt, if any, and the interval the ticker
  is reset to.
\<close>

definition doTicker ::
  "('c, 'd) collaborators \<Rightarrow> ('c, 'd) KVCacheSyncer
     \<Rightarrow> (error option \<times> int) \<times> ('c, 'd) KVCacheSyncer" where
  "doTicker env syncer =
     (case syncOnce env syncer of
        (Inl err, s') \<Rightarrow> ((Some err, syncIntervalNormal), s')
      | (Inr complete, s') \<Rightarrow>
          if complete then ((None, syncIntervalNormal), s')
          else ((None, syncIntervalCatchUp), s'))"

section \<open>Epoch data and log rows (package store)\<close>

text \<open>
  The chain data one epoch carries, as \<open>Pushn\<close> reads it: blocks in order, each with
  its block number (already converted by \<open>BlockNumber.ToInt().Uint64()\<close>) and
  its transactions; receipts and receipt extensions are Go maps keyed by transaction
  hash, where a missing key or a nil pointer is \<open>None\<close>.
\<close>

record cfxLog =
  Address :: string
  Topics :: "string list"
  EpochNumber :: u64
  LogIndex :: u64

record receipt =
  Logs :: "cfxLog list"

record receiptExtra =
  LogExts :: "string option list"

record transaction =
  Hash :: string
  BlockHash :: "string option"
  Status :: "u64 option"

record block =
  BlockNumber :: u64
  Transactions :: "transaction list"

record epochData =
  Number :: u64
  Blocks :: "block list"
  Receipts :: "string \<Rightarrow> receipt option"
  ReceiptExts :: "string \<Rightarrow> receiptExtra option"

record logV2 =
  ID :: u64
  ContractID :: u64
  bn :: u64
  Epoch :: u64
  Topic0 :: string
  Topic1 :: string
  Topic2 :: string
  Topic3 :: string
  logIndex :: u64
  Extra :: string

text \<open>
  Modelled from the spec: \<open>store.ParseCfxLog\<close> is not among the source files. The
  spec (section 3, LogRecord) gives the row: the owning contract identifier, the
  containing block number, the containing epoch number, up to four topic strings, the
  log index and the extension bytes.
\<close>

definition topicAt :: "cfxLog \<Rightarrow> nat \<Rightarrow> string" where
  "topicAt l k = (if k < length (Topics l) then Topics l ! k else [])"

definition ParseCfxLog :: "cfxLog \<Rightarrow> u64 \<Rightarrow> u64 \<Rightarrow> string option \<Rightarrow> logV2" where
  "ParseCfxLog l cid blockNumber logExt =
     \<lparr>ID = 0, ContractID = cid, bn = blockNumber, Epoch = EpochNumber l,
      Topic0 = topicAt l 0, Topic1 = topicAt l 1, Topic2 = topicAt l 2, Topic3 = topicAt l 3,
      logIndex = LogIndex l, Extra = (case logExt of None \<Rightarrow> [] | Some ext \<Rightarrow> ext)\<rparr>"

section \<open>The database behind the partitioned store (package mysql)\<close>

text \<open>
  The state the store's methods work on, through \<open>dbTx\<close> and the collaborators
  \<open>cs\<close> and \<open>ebms\<close>:
  \<^item> \<open>partitions\<close>: for each entity name, the metadata rows of its partitions;
  \<^item> \<open>tables\<close>: the rows of the physical table of each partition of \<open>logs_v2\<close>, by
    partition index (a table that was never created holds no row);
  \<^item> \<open>epochBlockMap\<close>: the block range recorded for an epoch (\<open>ebms\<close>);
  \<^item> \<open>contracts\<close>: the registered contracts, address and identifier (\<open>cs\<close>);
  \<^item> \<open>rejects\<close>: which operations the database fails, and with which error. Every
    operation below consults it first, so that each \<open>err != nil\<close> branch of the
    source is a branch of the model;
  \<^item> \<open>journal\<close>: the operations issued so far, oldest first.
\<close>

record bnPartition =
  Index :: u32
  BnMin :: "u64 option"
  BnMax :: "u64 option"
  Count :: nat

datatype dbOp =
    OpLatestPartition string
  | OpGrowPartition string
  | OpExpandBnRange string u32 u64 u64
  | OpShrinkBnRange string u64
  | OpDeltaUpdateCount string u32 int
  | OpCreateInBatches u32 nat
  | OpDelete u32 u64
  | OpBlockRange u64
  | OpAddContractIfAbsent string

record database =
  partitions :: "string \<Rightarrow> bnPartition list"
  tables :: "u32 \<Rightarrow> logV2 list"
  epochBlockMap :: "u64 \<Rightarrow> (u64 \<times> u64) option"
  contracts :: "(string \<times> u64) list"
  rejects :: "dbOp \<Rightarrow> error option"
  journal :: "dbOp list"

definition issue :: "dbOp \<Rightarrow> database \<Rightarrow> error option \<times> database" where
  "issue op d = (rejects d op, d\<lparr>journal := journal d @ [op]\<rparr>)"

text \<open>
  The two statements \<open>Pushn\<close> and \<open>Popn\<close> send through gorm:
  \<open>dbTx.Table(tblName).CreateInBatches(logs, ...)\<close> appends the rows to the
  partition's table, and \<open>dbTx.Table(tblName).Where("bn >= ?", bn).Delete(logV2{})\<close>
  deletes the rows at or above the block number and reports \<open>RowsAffected\<close>.
\<close>

definition CreateInBatches :: "u32 \<Rightarrow> logV2 list \<Rightarrow> database \<Rightarrow> error option \<times> database" where
  "CreateInBatches idx logs d =
     (case issue (OpCreateInBatches idx (length logs)) d of
        (Some err, d1) \<Rightarrow> (Some err, d1)
      | (None, d1) \<Rightarrow> (None, d1\<lparr>tables := (tables d1)(idx := tables d1 idx @ logs)\<rparr>))"

definition Delete :: "u32 \<Rightarrow> u64 \<Rightarrow> database \<Rightarrow> (error + nat) \<times> database" where
  "Delete idx blockNumber d =
     (case issue (OpDelete idx blockNumber) d of
        (Some err, d1) \<Rightarrow> (Inl err, d1)
      | (None, d1) \<Rightarrow>
          (Inr (length (filter (\<lambda>row. blockNumber \<le> bn row) (tables d1 idx))),
           d1\<lparr>tables := (tables d1)(idx := filter (\<lambda>row. \<not> blockNumber \<le> bn row) (tables d1 idx))\<rparr>))"

text \<open>
  Modelled from the spec: the block-map collaborator \<open>epochBlockMapStore\<close> is not
  among the source files. The spec (section 6) gives
  \<open>BlockRange(epoch) -> (Range{From, To}, found, error)\<close>.
\<close>

definition BlockRange :: "u64 \<Rightarrow> database \<Rightarrow> (error + (u64 \<times> u64) option) \<times> database" where
  "BlockRange epoch d =
     (case issue (OpBlockRange epoch) d of
        (Some err, d1) \<Rightarrow> (Inl err, d1)
      | (None, d1) \<Rightarrow> (Inr (epochBlockMap d1 epoch), d1))"

text \<open>
  Modelled from the spec: the contract collaborator \<open>ContractStore\<close> is not among the
  source files. The spec (sections 4.4 and 6) gives
  \<open>AddContractIfAbsent(address) -> (Contract{ID}, created, error)\<close>, which resolves
  or lazily registers the owning contract. A new contract gets the next identifier.
\<close>

definition AddContractIfAbsent ::
  "string \<Rightarrow> database \<Rightarrow> (error + u64 \<times> bool) \<times> database" where
  "AddContractIfAbsent address d =
     (case issue (OpAddContractIfAbsent address) d of
        (Some err, d1) \<Rightarrow> (Inl err, d1)
      | (None, d1) \<Rightarrow>
          (case map_of (contracts d1) address of
             Some cid \<Rightarrow> (Inr (cid, False), d1)
           | None \<Rightarrow>
               (Inr (of_nat (Suc (length (contracts d1))), True),
                d1\<lparr>contracts :=
                     contracts d1 @ [(address, of_nat (Suc (length (contracts d1))))]\<rparr>)))"

section \<open>Partitioned store\<close>

text \<open>
  Modelled from the spec: \<open>bnPartition\<close> and the methods of \<open>bnPartitionedStore\<close>
  (\<open>latestPartition\<close>, \<open>growPartition\<close>, \<open>expandBnRange\<close>, \<open>shrinkBnRange\<close>,
  \<open>deltaUpdateCount\<close>) are not among the source files. The spec gives the partition
  as \<open>{index: uint32, bnMin, bnMax: uint64, count: uint64}\<close> with the range unset
  in a new partition (section 3), and each method in section 4.3:
  \<^item> \<open>latestPartition\<close> returns the highest-index partition, or not-found;
  \<^item> \<open>growPartition\<close> allocates the next partition (index = previous + 1, or 0 if
    first) and registers empty metadata (count 0, range unset);
  \<^item> \<open>expandBnRange\<close> widens the recorded span: the stored minimum only decreases,
    the stored maximum only increases;
  \<^item> \<open>shrinkBnRange\<close> returns, in ascending index order, every partition whose
    recorded maximum is at or above the target, and sets each returned partition's
    recorded maximum to \<open>target - 1\<close>, or clears its range if its minimum is also at or
    above the target;
  \<^item> \<open>deltaUpdateCount\<close> adjusts the partition's row count by the delta; the count
    must never go below zero (nor leave \<open>uint64\<close>), so such an update is rejected.
\<close>

fun latestOf :: "bnPartition list \<Rightarrow> bnPartition option" where
  "latestOf [] = None"
| "latestOf (p # ps) =
     (case latestOf ps of
        None \<Rightarrow> Some p
      | Some q \<Rightarrow> if Index p \<le> Index q then Some q else Some p)"

definition latestPartition ::
  "string \<Rightarrow> database \<Rightarrow> (error + bnPartition option) \<times> database" where
  "latestPartition entity d =
     (case issue (OpLatestPartition entity) d of
        (Some err, d1) \<Rightarrow> (Inl err, d1)
      | (None, d1) \<Rightarrow> (Inr (latestOf (partitions d1 entity)), d1))"

definition nextPartition :: "bnPartition list \<Rightarrow> bnPartition" where
  "nextPartition ps =
     \<lparr>Index = (case latestOf ps of None \<Rightarrow> 0 | Some p \<Rightarrow> Index p + 1),
      BnMin = None, BnMax = None, Count = 0\<rparr>"

definition growPartition ::
  "string \<Rightarrow> database \<Rightarrow> (error + bnPartition) \<times> database" where
  "growPartition entity d =
     (case issue (OpGrowPartition entity) d of
        (Some err, d1) \<Rightarrow> (Inl err, d1)
      | (None, d1) \<Rightarrow>
          (Inr (nextPartition (partitions d1 entity)),
           d1\<lparr>partitions := (partitions d1)
                  (entity := partitions d1 entity @ [nextPartition (partitions d1 entity)])\<rparr>))"

definition widened :: "u64 \<Rightarrow> u64 \<Rightarrow> bnPartition \<Rightarrow> bnPartition" where
  "widened bnMin bnMax p =
     p\<lparr>BnMin := Some (case BnMin p of None \<Rightarrow> bnMin | Some lo \<Rightarrow> min lo bnMin),
       BnMax := Some (case BnMax p of None \<Rightarrow> bnMax | Some hi \<Rightarrow> max hi bnMax)\<rparr>"

definition expandBnRange ::
  "string \<Rightarrow> u32 \<Rightarrow> u64 \<Rightarrow> u64 \<Rightarrow> database \<Rightarrow> error option \<times> database" where
  "expandBnRange entity idx bnMin bnMax d =
     (case issue (OpExpandBnRange entity idx bnMin bnMax) d of
        (Some err, d1) \<Rightarrow> (Some err, d1)
      | (None, d1) \<Rightarrow>
          (None,
           d1\<lparr>partitions := (partitions d1)
                  (entity := map (\<lambda>p. if Index p = idx then widened bnMin bnMax p else p)
                     (partitions d1 entity))\<rparr>))"

definition reaches :: "u64 \<Rightarrow> bnPartition \<Rightarrow> bool" where
  "reaches target p = (case BnMax p of None \<Rightarrow> False | Some hi \<Rightarrow> target \<le> hi)"

definition shrunk :: "u64 \<Rightarrow> bnPartition \<Rightarrow> bnPartition" where
  "shrunk target p =
     (if reaches target p then
        (case BnMin p of
           None \<Rightarrow> p\<lparr>BnMax := Some (target - 1)\<rparr>
         | Some lo \<Rightarrow>
             if target \<le> lo then p\<lparr>BnMin := None, BnMax := None\<rparr>
             else p\<lparr>BnMax := Some (target - 1)\<rparr>)
      else p)"

definition shrinkBnRange ::
  "string \<Rightarrow> u64 \<Rightarrow> database \<Rightarrow> (error + bnPartition list) \<times> database" where
  "shrinkBnRange entity target d =
     (case issue (OpShrinkBnRange entity target) d of
        (Some err, d1) \<Rightarrow> (Inl err, d1)
      | (None, d1) \<Rightarrow>
          (Inr (sort_key Index (filter (reaches target) (partitions d1 entity))),
           d1\<lparr>partitions := (partitions d1)
                  (entity := map (shrunk target) (partitions d1 entity))\<rparr>))"

definition countInRange :: "int \<Rightarrow> bnPartition \<Rightarrow> bool" where
  "countInRange delta p = (0 \<le> int (Count p) + delta \<and> int (Count p) + delta < 2 ^ 64)"

definition errCountOutOfRange :: error where
  "errCountOutOfRange = Errorf ''partition count out of range'' []"

definition deltaUpdateCount ::
  "string \<Rightarrow> u32 \<Rightarrow> int \<Rightarrow> database \<Rightarrow> error option \<times> database" where
  "deltaUpdateCount entity idx delta d =
     (case issue (OpDeltaUpdateCount entity idx delta) d of
        (Some err, d1) \<Rightarrow> (Some err, d1)
      | (None, d1) \<Rightarrow>
          if list_all (countInRange delta) (filter (\<lambda>p. Index p = idx) (partitions d1 entity))
          then
            (None,
             d1\<lparr>partitions := (partitions d1)
                    (entity := map (\<lambda>p. if Index p = idx
                                         then p\<lparr>Count := nat (int (Count p) + delta)\<rparr> else p)
                       (partitions d1 entity))\<rparr>)
          else (Some errCountOutOfRange, d1))"

section \<open>Partitioned log store (logStoreV2)\<close>

definition bnPartitionedLogEntity :: string where
  "bnPartitionedLogEntity = ''logs''"

definition bnPartitionedLogVolumeSize :: nat where
  "bnPartitionedLogVolumeSize = 10000000"

text \<open>
  \<open>preparePartition\<close>: the result is the partition (or the error) and the database
  it leaves. The argument \<open>dataSlice\<close> is not used by the source either.
\<close>

definition preparePartition ::
  "epochData list \<Rightarrow> database \<Rightarrow> (error + bnPartition) \<times> database" where
  "preparePartition dataSlice d =
     (case latestPartition bnPartitionedLogEntity d of
        (Inl err, d1) \<Rightarrow> (Inl (WithMessage err ''failed to get latest log partition''), d1)
      | (Inr latest, d1) \<Rightarrow>
          if latest = None \<or> Count (the latest) \<ge> bnPartitionedLogVolumeSize then
            (case growPartition bnPartitionedLogEntity d1 of
               (Inl err, d2) \<Rightarrow> (Inl (WithMessage err ''failed to grow log partition''), d2)
             | (Inr newPartition, d2) \<Rightarrow> (Inr newPartition, d2))
          else (Inr (the latest), d1))"

text \<open>
  The loops of \<open>Pushn\<close>, innermost first: over the logs of a receipt (\<open>k\<close> is the
  position of the log), over the transactions of a block, over the blocks of an epoch,
  over the epochs of the batch. Each takes the rows collected so far and returns them
  extended, or the error that makes \<open>Pushn\<close> return at once.
  \<open>util.IsTxExecutedInBlock\<close> is not among the source files: it is the parameter
  \<open>isTxExecutedInBlock\<close>. The guard \<open>len(data.ReceiptExts) > 0\<close> only skips a
  lookup that finds nothing in an empty map, so the extension is the lookup itself;
  \<open>Address\<close> is the base32 address \<open>MustGetBase32Address\<close> returns.
\<close>

fun collectLogs ::
  "u64 \<Rightarrow> receiptExtra option \<Rightarrow> nat \<Rightarrow> cfxLog list \<Rightarrow> logV2 list \<Rightarrow> database
     \<Rightarrow> (error + logV2 list) \<times> database" where
  "collectLogs blockNumber rcptExt k [] logs d = (Inr logs, d)"
| "collectLogs blockNumber rcptExt k (l # rest) logs d =
     (case AddContractIfAbsent (Address l) d of
        (Inl err, d1) \<Rightarrow> (Inl (WithMessage err ''failed to add contract''), d1)
      | (Inr (contractID, created), d1) \<Rightarrow>
          (let logExt =
                 (if rcptExt \<noteq> None \<and> k < length (LogExts (the rcptExt))
                  then LogExts (the rcptExt) ! k else None)
           in collectLogs blockNumber rcptExt (Suc k) rest
                (logs @ [ParseCfxLog l contractID blockNumber logExt]) d1))"

fun collectTxs ::
  "(transaction \<Rightarrow> bool) \<Rightarrow> epochData \<Rightarrow> u64 \<Rightarrow> transaction list \<Rightarrow> logV2 list \<Rightarrow> database
     \<Rightarrow> (error + logV2 list) \<times> database" where
  "collectTxs isTxExecutedInBlock data blockNumber [] logs d = (Inr logs, d)"
| "collectTxs isTxExecutedInBlock data blockNumber (tx # rest) logs d =
     (if Receipts data (Hash tx) = None \<or> \<not> isTxExecutedInBlock tx
      then collectTxs isTxExecutedInBlock data blockNumber rest logs d
      else
        (case collectLogs blockNumber (ReceiptExts data (Hash tx)) 0
                (Logs (the (Receipts data (Hash tx)))) logs d of
           (Inl err, d1) \<Rightarrow> (Inl err, d1)
         | (Inr logs1, d1) \<Rightarrow> collectTxs isTxExecutedInBlock data blockNumber rest logs1 d1))"

fun collectBlocks ::
  "(transaction \<Rightarrow> bool) \<Rightarrow> epochData \<Rightarrow> block list \<Rightarrow> logV2 list \<Rightarrow> database
     \<Rightarrow> (error + logV2 list) \<times> database" where
  "collectBlocks isTxExecutedInBlock data [] logs d = (Inr logs, d)"
| "collectBlocks isTxExecutedInBlock data (b # rest) logs d =
     (case collectTxs isTxExecutedInBlock data (BlockNumber b) (Transactions b) logs d of
        (Inl err, d1) \<Rightarrow> (Inl err, d1)
      | (Inr logs1, d1) \<Rightarrow> collectBlocks isTxExecutedInBlock data rest logs1 d1)"

fun collectEpochs ::
  "(transaction \<Rightarrow> bool) \<Rightarrow> epochData list \<Rightarrow> logV2 list \<Rightarrow> database
     \<Rightarrow> (error + logV2 list) \<times> database" where
  "collectEpochs isTxExecutedInBlock [] logs d = (Inr logs, d)"
| "collectEpochs isTxExecutedInBlock (data # rest) logs d =
     (case collectBlocks isTxExecutedInBlock data (Blocks data) logs d of
        (Inl err, d1) \<Rightarrow> (Inl err, d1)
      | (Inr logs1, d1) \<Rightarrow> collectEpochs isTxExecutedInBlock rest logs1 d1)"

text \<open>
  The block range of the batch: \<open>dataSlice[0].Blocks[0]\<close> and the pivot block of the
  last epoch. Modelled from the spec: \<open>GetPivotBlock\<close> is not among the source
  files; by the spec's glossary the pivot block is the last block of the epoch. An index
  out of range is a panic.
\<close>

definition errIndexOutOfRange :: error where
  "errIndexOutOfRange = Panic ''index out of range''"

definition batchBnRange :: "epochData list \<Rightarrow> error + u64 \<times> u64" where
  "batchBnRange dataSlice =
     (if dataSlice = [] \<or> Blocks (hd dataSlice) = [] \<or> Blocks (last dataSlice) = []
      then Inl errIndexOutOfRange
      else Inr (BlockNumber (hd (Blocks (hd dataSlice))),
                BlockNumber (last (Blocks (last dataSlice)))))"

definition Pushn ::
  "(transaction \<Rightarrow> bool) \<Rightarrow> epochData list \<Rightarrow> bnPartition \<Rightarrow> database
     \<Rightarrow> error option \<times> database" where
  "Pushn isTxExecutedInBlock dataSlice logPartition d =
     (case collectEpochs isTxExecutedInBlock dataSlice [] d of
        (Inl err, d1) \<Rightarrow> (Some err, d1)
      | (Inr logs, d1) \<Rightarrow>
          if length logs = 0 then (None, d1)
          else
            (case CreateInBatches (Index logPartition) logs d1 of
               (Some err, d2) \<Rightarrow> (Some err, d2)
             | (None, d2) \<Rightarrow>
                 (case batchBnRange dataSlice of
                    Inl err \<Rightarrow> (Some err, d2)
                  | Inr (bnMin, bnMax) \<Rightarrow>
                      (case expandBnRange bnPartitionedLogEntity (Index logPartition)
                              bnMin bnMax d2 of
                         (Some err, d3) \<Rightarrow>
                           (Some (WithMessage err ''failed to expand partition bn range''), d3)
                       | (None, d3) \<Rightarrow>
                           (case deltaUpdateCount bnPartitionedLogEntity (Index logPartition)
                                   (int (length logs)) d3 of
                              (Some err, d4) \<Rightarrow>
                                (Some (WithMessage err ''failed to delta update partition size''),
                                 d4)
                            | (None, d4) \<Rightarrow> (None, d4))))))"

text \<open>
  The loop of \<open>Popn\<close>, \<open>for i := len(partitions) - 1; i >= 0; i--\<close>: it runs over the
  reversed list.
\<close>

fun popPartitions :: "u64 \<Rightarrow> bnPartition list \<Rightarrow> database \<Rightarrow> error option \<times> database" where
  "popPartitions bnFrom [] d = (None, d)"
| "popPartitions bnFrom (p # rest) d =
     (case Delete (Index p) bnFrom d of
        (Inl err, d1) \<Rightarrow> (Some err, d1)
      | (Inr rowsAffected, d1) \<Rightarrow>
          (case deltaUpdateCount bnPartitionedLogEntity (Index p)
                  (- int rowsAffected) d1 of
             (Some err, d2) \<Rightarrow>
               (Some (WithMessage err ''failed to delta update partition size''), d2)
           | (None, d2) \<Rightarrow> popPartitions bnFrom rest d2))"

definition Popn :: "u64 \<Rightarrow> database \<Rightarrow> error option \<times> database" where
  "Popn epochUntil d =
     (case BlockRange epochUntil d of
        (Inl err, d1) \<Rightarrow>
          (Some (WithMessagef err ''failed to get block mapping for epoch %v'' [epochUntil]), d1)
      | (Inr None, d1) \<Rightarrow>
          (Some (Errorf ''no block mapping found for epoch %v'' [epochUntil]), d1)
      | (Inr (Some (bnFrom, bnTo)), d1) \<Rightarrow>
          (case shrinkBnRange bnPartitionedLogEntity bnFrom d1 of
             (Inl err, d2) \<Rightarrow>
               (Some (WithMessage err ''failed to shrink partition bn range''), d2)
           | (Inr candidates, d2) \<Rightarrow> popPartitions bnFrom (rev candidates) d2))"

section \<open>Definitions for the properties\<close>

text \<open>
  The vocabulary of the statements below (what a claim calls the epochs of a batch,
  the logs of a batch, the candidates of a revert) and small concrete stores, batches
  and databases on which the model is run.
\<close>

subsection \<open>Vocabulary of the statements\<close>

text \<open>The epochs one attempt fetches, in the order of the loop.\<close>

definition batchEpochs :: "('c, 'd) KVCacheSyncer \<Rightarrow> u64 list" where
  "batchEpochs syncer =
     (case peekShrinkFrom (syncWindow syncer) (ucast (maxSyncEpochs syncer)) of
        (syncFrom, syncSize) \<Rightarrow> map (\<lambda>i. syncFrom + ucast i) (loopIndices syncSize))"

text \<open>
  The claims' words: a transaction contributes when it has a receipt in the receipt
  map of its epoch and passes the execution check; \<open>batchLogs\<close> lists the logs of
  the contributing transactions of a batch, each with the number of its block, in
  the order of the epochs, blocks, transactions and logs; \<open>recordOf\<close> says that a
  row is the record of a log.
\<close>

definition contributes :: "(transaction \<Rightarrow> bool) \<Rightarrow> epochData \<Rightarrow> transaction \<Rightarrow> bool" where
  "contributes exec data tx = (Receipts data (Hash tx) \<noteq> None \<and> exec tx)"

definition txLogs :: "(transaction \<Rightarrow> bool) \<Rightarrow> epochData \<Rightarrow> transaction \<Rightarrow> cfxLog list" where
  "txLogs exec data tx =
     (if contributes exec data tx then Logs (the (Receipts data (Hash tx))) else [])"

definition blockLogs :: "(transaction \<Rightarrow> bool) \<Rightarrow> epochData \<Rightarrow> block \<Rightarrow> (u64 \<times> cfxLog) list" where
  "blockLogs exec data b =
     concat (map (\<lambda>tx. map (Pair (BlockNumber b)) (txLogs exec data tx)) (Transactions b))"

definition epochLogs :: "(transaction \<Rightarrow> bool) \<Rightarrow> epochData \<Rightarrow> (u64 \<times> cfxLog) list" where
  "epochLogs exec data = concat (map (blockLogs exec data) (Blocks data))"

definition batchLogs :: "(transaction \<Rightarrow> bool) \<Rightarrow> epochData list \<Rightarrow> (u64 \<times> cfxLog) list" where
  "batchLogs exec dataSlice = concat (map (epochLogs exec) dataSlice)"

definition recordOf :: "u64 \<times> cfxLog \<Rightarrow> logV2 \<Rightarrow> bool" where
  "recordOf bl row =
     (bn row = fst bl \<and> Epoch row = EpochNumber (snd bl) \<and> logIndex row = LogIndex (snd bl)
      \<and> Topic0 row = topicAt (snd bl) 0 \<and> Topic1 row = topicAt (snd bl) 1
      \<and> Topic2 row = topicAt (snd bl) 2 \<and> Topic3 row = topicAt (snd bl) 3)"

text \<open>The partition indexes of the delete statements in a journal, in order.\<close>

fun deletes :: "dbOp list \<Rightarrow> u32 list" where
  "deletes [] = []"
| "deletes (OpDelete idx blockNumber # ops) = idx # deletes ops"
| "deletes (op # ops) = deletes ops"

text \<open>The partitions \<open>shrinkBnRange\<close> selects for a target block number.\<close>

definition candidates :: "u64 \<Rightarrow> database \<Rightarrow> bnPartition list" where
  "candidates target d = filter (reaches target) (partitions d bnPartitionedLogEntity)"

text \<open>The rows a revert to \<open>b\<close> removes from the table of partition \<open>i\<close>.\<close>

definition doomed :: "u64 \<Rightarrow> database \<Rightarrow> u32 \<Rightarrow> nat" where
  "doomed b d i = length (filter (\<lambda>row. b \<le> bn row) (tables d i))"

subsection \<open>An in-memory cache store to run the syncer on\<close>

text \<open>
  The epoch data is the epoch number; the store's state is the list of the epochs it
  holds. \<open>demoStore fails None\<close> never fails; \<open>demoStore fails (Some err)\<close> fails
  every mutating call with \<open>err\<close> and every fetch of an epoch in \<open>fails\<close>.
\<close>

definition errNotFound :: error where
  "errNotFound = Errorf ''record not found'' []"

definition demoStore :: "u64 list \<Rightarrow> error option \<Rightarrow> (u64 list, u64) collaborators" where
  "demoStore fails fault =
     \<lparr>QueryEpochData =
        (\<lambda>e. if e \<in> set fails then Inl (Errorf ''epoch %v not available'' [e]) else Inr e),
      ensureStoreEpochDataOk = (\<lambda>c. (None, c)),
      GetGlobalEpochRange = (\<lambda>c. if c = [] then Inl errNotFound else Inr (hd c, last c)),
      IsRecordNotFound = (\<lambda>err. err = errNotFound),
      cachePushn = (\<lambda>ds c. (fault, if fault = None then c @ ds else c)),
      cachePopn = (\<lambda>e c. (fault, if fault = None then filter (\<lambda>x. x < e) c else c)),
      cacheFlush = (\<lambda>c. (fault, if fault = None then [] else c))\<rparr>"

definition demoSyncer :: "u64 list \<Rightarrow> u64 \<Rightarrow> u64 \<Rightarrow> u64 \<Rightarrow> (u64 list, u64) KVCacheSyncer" where
  "demoSyncer c decay from' to' =
     \<lparr>cache = c, maxSyncEpochs = 2,
      syncWindow = \<lparr>threshold = decay, epochFrom = from', epochTo = to'\<rparr>,
      cacheCalls = []\<rparr>"

subsection \<open>A database and batches to run the store on\<close>

definition demoDb :: "bnPartition list \<Rightarrow> (u32 \<Rightarrow> logV2 list) \<Rightarrow> database" where
  "demoDb ps ts =
     \<lparr>partitions = (\<lambda>e. if e = bnPartitionedLogEntity then ps else []),
      tables = ts,
      epochBlockMap = (\<lambda>e. if e = 7 then Some (70, 79) else None),
      contracts = [],
      rejects = (\<lambda>op. None),
      journal = []\<rparr>"

definition demoPartition :: "u32 \<Rightarrow> nat \<Rightarrow> bnPartition" where
  "demoPartition idx n = \<lparr>Index = idx, BnMin = Some 1, BnMax = Some 9, Count = n\<rparr>"

definition demoLog :: "string \<Rightarrow> u64 \<Rightarrow> cfxLog" where
  "demoLog a k = \<lparr>Address = a, Topics = [''t0''], EpochNumber = 7, LogIndex = k\<rparr>"

definition demoTx :: "string \<Rightarrow> bool \<Rightarrow> transaction" where
  "demoTx h ok =
     \<lparr>Hash = h, BlockHash = (if ok then Some ''b70'' else None),
      Status = (if ok then Some 0 else None)\<rparr>"

definition demoExecuted :: "transaction \<Rightarrow> bool" where
  "demoExecuted tx = (BlockHash tx \<noteq> None \<and> Status tx = Some 0)"

text \<open>
  One epoch with one block, number 70. Transaction \<open>a\<close> is executed and has a receipt
  with two logs; \<open>b\<close> is executed and has no receipt; \<open>c\<close> has the same receipt and
  is not executed.
\<close>

definition demoEpoch :: "transaction list \<Rightarrow> epochData" where
  "demoEpoch txs =
     \<lparr>Number = 7,
      Blocks = [\<lparr>BlockNumber = 70, Transactions = txs\<rparr>],
      Receipts = (\<lambda>h. if h = ''a'' \<or> h = ''c''
                       then Some \<lparr>Logs = [demoLog ''x'' 0, demoLog ''y'' 1]\<rparr> else None),
      ReceiptExts = (\<lambda>h. None)\<rparr>"

text \<open>
  A database with three partitions. Epoch 7 starts at block 70, which is the minimum
  of partition 2 and inside the range of partition 1; epoch 8 is not mapped.
\<close>

definition demoRow :: "u64 \<Rightarrow> logV2" where
  "demoRow b = ParseCfxLog (demoLog ''x'' 0) 1 b None"

definition demoParts :: "bnPartition list" where
  "demoParts =
     [\<lparr>Index = 0, BnMin = Some 1, BnMax = Some 49, Count = 1\<rparr>,
      \<lparr>Index = 1, BnMin = Some 50, BnMax = Some 75, Count = 3\<rparr>,
      \<lparr>Index = 2, BnMin = Some 70, BnMax = Some 99, Count = 2\<rparr>]"

definition demoTables :: "u32 \<Rightarrow> logV2 list" where
  "demoTables i =
     (if i = 0 then [demoRow 10]
      else if i = 1 then [demoRow 50, demoRow 69, demoRow 72]
      else if i = 2 then [demoRow 70, demoRow 90]
      else [])"

section \<open>Stall monitor: properties\<close>

lemma reported_onSuccess: "reported m (onSuccess m) = Some Success"
  by (simp add: reported_def onSuccess_def)

lemma reported_onFailure: "reported m (onFailure e hs m) = Some (Failure e hs)"
  by (simp add: reported_def onFailure_def)

lemma lag_no_wrap:
  fixes c l t :: u64
  assumes lo: "1 \<le> uint c + uint l" and hi: "uint c + uint l \<le> 2 ^ 64"
  shows "(c + l - 1 < t) = (uint c + uint l \<le> uint t)"
proof -
  have "uint (c + l - 1) = (uint c + uint l - 1) mod 2 ^ 64"
    by (simp add: uint_word_ariths mod_simps)
  also have "\<dots> = uint c + uint l - 1"
    using lo hi by (intro mod_pos_pos_trivial) simp_all
  finally have "uint (c + l - 1) = uint c + uint l - 1" .
  then show ?thesis
    by (simp add: word_less_def) arith
qed

text \<open>
  C9, as stated, fails: \<open>Update\<close> assigns the new height whether or not it is higher,
  so a lower height replaces a higher one.
\<close>

theorem Update_height_decreases:
  "currentHeight
     (Update 2 3 (Update 1 5
        \<lparr>MaxStalledDuration = 300, MaxAllowedLag = 200, currentHeight = 0,
         lastAdvancedAt = 0, healthStatus = []\<rparr>))
   < currentHeight
       (Update 1 5
          \<lparr>MaxStalledDuration = 300, MaxAllowedLag = 200, currentHeight = 0,
           lastAdvancedAt = 0, healthStatus = []\<rparr>)"
  by (simp add: Update_def)

text \<open>
  C9, amended: \<open>Update h\<close> stores \<open>h\<close> as the current height in every case (so the
  stored height is the last one reported, higher or lower), and the advance timestamp
  becomes the clock reading exactly when \<open>h\<close> is strictly above the height stored
  before; otherwise the timestamp is kept. Nothing else of the monitor changes.
\<close>

theorem Update_records_height:
  "currentHeight (Update now h m) = h
   \<and> lastAdvancedAt (Update now h m) = (if currentHeight m < h then now else lastAdvancedAt m)
   \<and> healthStatus (Update now h m) = healthStatus m
   \<and> MaxAllowedLag (Update now h m) = MaxAllowedLag m
   \<and> MaxStalledDuration (Update now h m) = MaxStalledDuration m"
  by (simp add: Update_def)

theorem Update_records_height_witness:
  "lastAdvancedAt
     (Update 7 5 \<lparr>MaxStalledDuration = 300, MaxAllowedLag = 200, currentHeight = 4,
        lastAdvancedAt = 1, healthStatus = []\<rparr>) = 7
   \<and> lastAdvancedAt
     (Update 7 4 \<lparr>MaxStalledDuration = 300, MaxAllowedLag = 200, currentHeight = 4,
        lastAdvancedAt = 1, healthStatus = []\<rparr>) = 1"
  using
    Update_records_height [of 7 5 "\<lparr>MaxStalledDuration = 300, MaxAllowedLag = 200,
      currentHeight = 4, lastAdvancedAt = 1, healthStatus = []\<rparr>"]
    Update_records_height [of 7 4 "\<lparr>MaxStalledDuration = 300, MaxAllowedLag = 200,
      currentHeight = 4, lastAdvancedAt = 1, healthStatus = []\<rparr>"]
  by simp

text \<open>
  What the check reports, branch by branch: a failed fetch of the latest height is a
  failure; otherwise, when the height advanced within \<open>MaxStalledDuration\<close>, success
  whatever the heights are; otherwise failure exactly when the \<open>uint64\<close> comparison
  \<open>currentHeight + MaxAllowedLag - 1 < latestHeight\<close> holds.
\<close>

lemma checkOnce_computes:
  "reported m (checkOnce r now m) =
     (case r of
        Inl err \<Rightarrow> Some (Failure (WithMessage err ''fetch latest height error'') [])
      | Inr latest \<Rightarrow>
          if now - lastAdvancedAt m < MaxStalledDuration m then Some Success
          else if currentHeight m + MaxAllowedLag m - 1 < latest
            then Some (Failure errSyncHeightNotGrowing [currentHeight m, latest])
          else Some Success)"
  by (cases r) (simp_all add: checkOnce_def reported_onSuccess reported_onFailure)

text \<open>
  Read on the integers (while \<open>currentHeight + MaxAllowedLag - 1\<close> does not wrap
  around), the comparison fails the stalled check from a lag of \<open>MaxAllowedLag\<close> on:
  a lag equal to \<open>MaxAllowedLag\<close> is already a failure, and only a lag strictly below
  it is a success.
\<close>

lemma checkOnce_fails_from_lag:
  assumes stalled: "\<not> now - lastAdvancedAt m < MaxStalledDuration m"
    and lo: "1 \<le> uint (currentHeight m) + uint (MaxAllowedLag m)"
    and hi: "uint (currentHeight m) + uint (MaxAllowedLag m) \<le> 2 ^ 64"
  shows "reported m (checkOnce (Inr latest) now m) =
        (if uint (MaxAllowedLag m) \<le> uint latest - uint (currentHeight m)
         then Some (Failure errSyncHeightNotGrowing [currentHeight m, latest])
         else Some Success)"
proof -
  from lo hi have "(currentHeight m + MaxAllowedLag m - 1 < latest)
      = (uint (currentHeight m) + uint (MaxAllowedLag m) \<le> uint latest)"
    by (rule lag_no_wrap)
  moreover have "(uint (currentHeight m) + uint (MaxAllowedLag m) \<le> uint latest)
      = (uint (MaxAllowedLag m) \<le> uint latest - uint (currentHeight m))"
    by arith
  ultimately show ?thesis
    using stalled by (simp add: checkOnce_computes)
qed


section \<open>Cache syncer: properties\<close>

subsection \<open>The tick-driven attempt\<close>

lemma queryLoop_Inr:
  "queryLoop q f js acc = Inr ds \<Longrightarrow>
     \<exists>batch. ds = acc @ batch \<and> map (\<lambda>i. q (f + ucast i)) js = map Inr batch"
proof (induction js arbitrary: acc)
  case Nil
  then show ?case by simp
next
  case (Cons j js)
  from Cons.prems obtain d where d: "q (f + ucast j) = Inr d"
    and rest: "queryLoop q f js (acc @ [d]) = Inr ds"
    by (auto split: sum.splits)
  from Cons.IH [OF rest] obtain batch where
    "ds = (acc @ [d]) @ batch" "map (\<lambda>i. q (f + ucast i)) js = map Inr batch"
    by blast
  with d have "ds = acc @ (d # batch) \<and> map (\<lambda>i. q (f + ucast i)) (j # js) = map Inr (d # batch)"
    by simp
  then show ?case by blast
qed

lemma queryLoop_fetched:
  "map (\<lambda>i. q (f + ucast i)) js = map Inr batch \<Longrightarrow> queryLoop q f js acc = Inr (acc @ batch)"
proof (induction js arbitrary: acc batch)
  case Nil
  then show ?case by simp
next
  case (Cons j js)
  then obtain d rest where b: "batch = d # rest" by (cases batch) auto
  with Cons.prems have "q (f + ucast j) = Inr d" "map (\<lambda>i. q (f + ucast i)) js = map Inr rest"
    by simp_all
  with Cons.IH [of rest "acc @ [d]"] b show ?case by simp
qed

lemma queryLoop_fails:
  "j \<in> set js \<Longrightarrow> isl (q (f + ucast j)) \<Longrightarrow> isl (queryLoop q f js acc)"
proof (induction js arbitrary: acc)
  case Nil
  then show ?case by simp
next
  case (Cons i js)
  show ?case
  proof (cases "q (f + ucast i)")
    case (Inl e)
    then show ?thesis by simp
  next
    case (Inr d)
    with Cons.prems have "j \<in> set js" by auto
    with Cons.IH Cons.prems(2) Inr show ?thesis by simp
  qed
qed

lemma syncOnce_fetch_failure:
  assumes "\<not> isEmpty (syncWindow s)"
    and "e \<in> set (batchEpochs s)" and "isl (QueryEpochData env e)"
  shows "isl (fst (syncOnce env s)) \<and> snd (syncOnce env s) = s"
proof -
  obtain syncFrom syncSize where
    p: "peekShrinkFrom (syncWindow s) (ucast (maxSyncEpochs s)) = (syncFrom, syncSize)"
    by (cases "peekShrinkFrom (syncWindow s) (ucast (maxSyncEpochs s))")
  from assms(2) p obtain j where "j \<in> set (loopIndices syncSize)" "e = syncFrom + ucast j"
    by (auto simp: batchEpochs_def)
  with assms(3) have "isl (queryLoop (QueryEpochData env) syncFrom (loopIndices syncSize) [])"
    by (auto intro: queryLoop_fails)
  then obtain err where
    "queryLoop (QueryEpochData env) syncFrom (loopIndices syncSize) [] = Inl err"
    by (cases "queryLoop (QueryEpochData env) syncFrom (loopIndices syncSize) []") auto
  with assms(1) p show ?thesis by (simp add: syncOnce_def)
qed

lemma syncOnce_write_failure:
  assumes "\<not> isEmpty (syncWindow s)"
    and "map (QueryEpochData env) (batchEpochs s) = map Inr batch"
    and "fst (cachePushn env batch (cache s)) \<noteq> None"
  shows "isl (fst (syncOnce env s)) \<and> syncWindow (snd (syncOnce env s)) = syncWindow s"
proof -
  obtain syncFrom syncSize where
    p: "peekShrinkFrom (syncWindow s) (ucast (maxSyncEpochs s)) = (syncFrom, syncSize)"
    by (cases "peekShrinkFrom (syncWindow s) (ucast (maxSyncEpochs s))")
  with assms(2) have
    "map (\<lambda>i. QueryEpochData env (syncFrom + ucast i)) (loopIndices syncSize) = map Inr batch"
    by (simp add: batchEpochs_def comp_def)
  then have q: "queryLoop (QueryEpochData env) syncFrom (loopIndices syncSize) [] = Inr batch"
    using queryLoop_fetched [of "QueryEpochData env" syncFrom "loopIndices syncSize" batch "[]"]
    by simp
  obtain err c' where "cachePushn env batch (cache s) = (Some err, c')"
    using assms(3) by (cases "cachePushn env batch (cache s)") auto
  with assms(1) p q show ?thesis by (simp add: syncOnce_def)
qed

lemma syncOnce_result:
  assumes "\<not> isEmpty (syncWindow s)" and "syncOnce env s = (r, s')"
  shows "case r of
           Inl err \<Rightarrow> syncWindow s' = syncWindow s
         | Inr complete \<Rightarrow>
             (\<exists>batch c'. map (QueryEpochData env) (batchEpochs s) = map Inr batch
                \<and> cachePushn env batch (cache s) = (None, c')
                \<and> cache s' = c'
                \<and> cacheCalls s' = cacheCalls s @ [CallPushn batch]
                \<and> syncWindow s' = snd (shrinkFrom (syncWindow s) (ucast (maxSyncEpochs s)))
                \<and> complete = isEmpty (syncWindow s'))"
proof -
  obtain syncFrom syncSize where
    p: "peekShrinkFrom (syncWindow s) (ucast (maxSyncEpochs s)) = (syncFrom, syncSize)"
    by (cases "peekShrinkFrom (syncWindow s) (ucast (maxSyncEpochs s))")
  show ?thesis
  proof (cases "queryLoop (QueryEpochData env) syncFrom (loopIndices syncSize) []")
    case (Inl err)
    with assms p show ?thesis by (auto simp: syncOnce_def)
  next
    case (Inr ds)
    from queryLoop_Inr [OF Inr] have
      fetched: "map (QueryEpochData env) (batchEpochs s) = map Inr ds"
      using p by (simp add: batchEpochs_def comp_def)
    obtain res c' where w: "cachePushn env ds (cache s) = (res, c')"
      by (cases "cachePushn env ds (cache s)")
    show ?thesis
    proof (cases res)
      case None
      with assms p Inr w fetched show ?thesis
        by (auto simp: syncOnce_def split: prod.splits)
    next
      case (Some err)
      with assms p Inr w show ?thesis by (auto simp: syncOnce_def)
    qed
  qed
qed

text \<open>
  C1. An attempt on a non-empty window that returns an error leaves the window as it
  was; an attempt that returns without error has fetched every epoch of the batch,
  has called \<open>Pushn\<close> once with the whole batch, \<open>Pushn\<close> has succeeded, and only then
  is the window the one \<open>shrinkFrom\<close> gives. When a fetch fails the attempt returns
  an error and nothing of the syncer changes (the store is not called); when every
  fetch succeeds and \<open>Pushn\<close> fails the attempt returns an error and the window is
  unchanged. The tick (\<open>doTicker\<close>) leaves the syncer as the attempt left it and
  reports an error exactly when the attempt returned one.
\<close>

theorem syncOnce_commits_after_write:
  assumes "\<not> isEmpty (syncWindow s)" and "syncOnce env s = (r, s')"
  shows "(case r of
            Inl err \<Rightarrow> syncWindow s' = syncWindow s
          | Inr complete \<Rightarrow>
              (\<exists>batch c'. map (QueryEpochData env) (batchEpochs s) = map Inr batch
                 \<and> cachePushn env batch (cache s) = (None, c')
                 \<and> cache s' = c'
                 \<and> cacheCalls s' = cacheCalls s @ [CallPushn batch]
                 \<and> syncWindow s' = snd (shrinkFrom (syncWindow s) (ucast (maxSyncEpochs s)))
                 \<and> complete = isEmpty (syncWindow s')))
       \<and> ((\<exists>e \<in> set (batchEpochs s). isl (QueryEpochData env e)) \<longrightarrow> isl r \<and> s' = s)
       \<and> (\<forall>batch. map (QueryEpochData env) (batchEpochs s) = map Inr batch
             \<and> fst (cachePushn env batch (cache s)) \<noteq> None
            \<longrightarrow> isl r \<and> syncWindow s' = syncWindow s)
       \<and> snd (doTicker env s) = s'
       \<and> (fst (fst (doTicker env s)) \<noteq> None) = isl r"
proof (intro conjI)
  show "case r of
          Inl err \<Rightarrow> syncWindow s' = syncWindow s
        | Inr complete \<Rightarrow>
            (\<exists>batch c'. map (QueryEpochData env) (batchEpochs s) = map Inr batch
               \<and> cachePushn env batch (cache s) = (None, c')
               \<and> cache s' = c'
               \<and> cacheCalls s' = cacheCalls s @ [CallPushn batch]
               \<and> syncWindow s' = snd (shrinkFrom (syncWindow s) (ucast (maxSyncEpochs s)))
               \<and> complete = isEmpty (syncWindow s'))"
    using assms by (rule syncOnce_result)
next
  show "(\<exists>e \<in> set (batchEpochs s). isl (QueryEpochData env e)) \<longrightarrow> isl r \<and> s' = s"
    using syncOnce_fetch_failure [OF assms(1), of _ env] assms(2) by auto
next
  show "\<forall>batch. map (QueryEpochData env) (batchEpochs s) = map Inr batch
             \<and> fst (cachePushn env batch (cache s)) \<noteq> None
            \<longrightarrow> isl r \<and> syncWindow s' = syncWindow s"
    using syncOnce_write_failure [OF assms(1), of env] assms(2) by auto
next
  show "snd (doTicker env s) = s'"
    using assms(2) by (cases r) (simp_all add: doTicker_def)
next
  show "(fst (fst (doTicker env s)) \<noteq> None) = isl r"
    using assms(2) by (cases r) (simp_all add: doTicker_def)
qed

lemma demo_window_nonempty: "\<not> isEmpty (syncWindow (demoSyncer c 5 10 12))"
  by (simp add: demoSyncer_def isEmpty_def)

lemma demo_maxSyncEpochs: "ucast (maxSyncEpochs (demoSyncer c d f t)) = (2 :: u32)"
  by (simp add: demoSyncer_def)

lemma demo_batchEpochs: "batchEpochs (demoSyncer c 5 10 12) = [10, 11]"
  by (simp add: batchEpochs_def demoSyncer_def peekShrinkFrom_def isEmpty_def
      loopIndices_def upt_rec)

lemma demo_syncOnce:
  "syncOnce (demoStore [] None) (demoSyncer [] 5 10 12) =
     (Inr False,
      \<lparr>cache = [10, 11], maxSyncEpochs = 2,
       syncWindow = \<lparr>threshold = 5, epochFrom = 12, epochTo = 12\<rparr>,
       cacheCalls = [CallPushn [10, 11]]\<rparr>)"
  by (simp add: syncOnce_def demoStore_def demoSyncer_def peekShrinkFrom_def shrinkFrom_def
      isEmpty_def loopIndices_def upt_rec)

theorem syncOnce_commits_after_write_witness:
  "syncWindow (snd (syncOnce (demoStore [] None) (demoSyncer [] 5 10 12)))
     = snd (shrinkFrom (syncWindow (demoSyncer [] 5 10 12)) 2)
   \<and> isl (fst (syncOnce (demoStore [11] None) (demoSyncer [] 5 10 12)))
   \<and> snd (syncOnce (demoStore [11] None) (demoSyncer [] 5 10 12)) = demoSyncer [] 5 10 12
   \<and> isl (fst (syncOnce (demoStore [] (Some errNotFound)) (demoSyncer [] 5 10 12)))
   \<and> syncWindow (snd (syncOnce (demoStore [] (Some errNotFound)) (demoSyncer [] 5 10 12)))
     = syncWindow (demoSyncer [] 5 10 12)"
proof -
  have fetch: "\<exists>e \<in> set (batchEpochs (demoSyncer [] 5 10 12)).
      isl (QueryEpochData (demoStore [11] None) e)"
    by (simp add: demo_batchEpochs demoStore_def)
  have fetched: "map (QueryEpochData (demoStore [] (Some errNotFound)))
      (batchEpochs (demoSyncer [] 5 10 12)) = map Inr [10, 11]"
    by (simp add: demo_batchEpochs demoStore_def)
  have wfail: "fst (cachePushn (demoStore [] (Some errNotFound)) [10, 11]
      (cache (demoSyncer [] 5 10 12))) \<noteq> None"
    by (simp add: demoStore_def)
  have a: "syncWindow (snd (syncOnce (demoStore [] None) (demoSyncer [] 5 10 12)))
     = snd (shrinkFrom (syncWindow (demoSyncer [] 5 10 12)) 2)"
    using syncOnce_commits_after_write [OF demo_window_nonempty demo_syncOnce]
    by (auto simp: demo_syncOnce demo_maxSyncEpochs)
  have b: "isl (fst (syncOnce (demoStore [11] None) (demoSyncer [] 5 10 12)))
     \<and> snd (syncOnce (demoStore [11] None) (demoSyncer [] 5 10 12)) = demoSyncer [] 5 10 12"
    using syncOnce_commits_after_write [OF demo_window_nonempty surjective_pairing,
        of "demoStore [11] None" "[]"] fetch
    by blast
  have c: "isl (fst (syncOnce (demoStore [] (Some errNotFound)) (demoSyncer [] 5 10 12)))
     \<and> syncWindow (snd (syncOnce (demoStore [] (Some errNotFound)) (demoSyncer [] 5 10 12)))
       = syncWindow (demoSyncer [] 5 10 12)"
    using syncOnce_commits_after_write [OF demo_window_nonempty surjective_pairing,
        of "demoStore [] (Some errNotFound)" "[]"] fetched wfail
    by blast
  from a b c show ?thesis by simp
qed

subsection \<open>New-epoch notifications\<close>

text \<open>
  C2. When \<open>peekWillPivotSwitch e\<close> holds, the syncer calls the store's \<open>Popn e\<close>,
  once, and nothing else on the store. If the revert succeeds the window is
  \<open>expandFrom e\<close>, that is \<open>{from: e, to: e}\<close>; if it fails the window is unchanged.
\<close>

theorem handleNewEpoch_pivot_switch:
  assumes "peekWillPivotSwitch (syncWindow s) e"
  shows "cacheCalls (handleNewEpoch env e s) = cacheCalls s @ [CallPopn e]
    \<and> cache (handleNewEpoch env e s) = snd (cachePopn env e (cache s))
    \<and> (fst (cachePopn env e (cache s)) = None \<longrightarrow>
          syncWindow (handleNewEpoch env e s) = expandFrom (syncWindow s) e
          \<and> epochFrom (syncWindow (handleNewEpoch env e s)) = e
          \<and> epochTo (syncWindow (handleNewEpoch env e s)) = e)
    \<and> (fst (cachePopn env e (cache s)) \<noteq> None \<longrightarrow>
          syncWindow (handleNewEpoch env e s) = syncWindow s)"
proof (cases "cachePopn env e (cache s)")
  case (Pair res c')
  show ?thesis
  proof (cases res)
    case None
    with Pair assms show ?thesis
      by (simp add: handleNewEpoch_def pivotSwitchRevert_def expandFrom_def)
  next
    case (Some err)
    with Pair assms show ?thesis
      by (simp add: handleNewEpoch_def pivotSwitchRevert_def)
  qed
qed

lemma demo_pivot_switch: "peekWillPivotSwitch (syncWindow (demoSyncer c d 50 80)) 60"
  by (simp add: demoSyncer_def peekWillPivotSwitch_def)

theorem handleNewEpoch_pivot_switch_witness:
  "syncWindow (handleNewEpoch (demoStore [] None) 60 (demoSyncer [59, 60, 61] 5 50 80))
     = \<lparr>threshold = 5, epochFrom = 60, epochTo = 60\<rparr>
   \<and> cacheCalls (handleNewEpoch (demoStore [] None) 60 (demoSyncer [59, 60, 61] 5 50 80))
     = [CallPopn 60]
   \<and> cache (handleNewEpoch (demoStore [] None) 60 (demoSyncer [59, 60, 61] 5 50 80)) = [59]
   \<and> syncWindow
       (handleNewEpoch (demoStore [] (Some errNotFound)) 60 (demoSyncer [59, 60, 61] 5 50 80))
     = \<lparr>threshold = 5, epochFrom = 50, epochTo = 80\<rparr>"
proof -
  have ok: "fst (cachePopn (demoStore [] None) 60 (cache (demoSyncer [59, 60, 61] 5 50 80)))
      = None"
    and popped: "snd (cachePopn (demoStore [] None) 60 (cache (demoSyncer [59, 60, 61] 5 50 80)))
      = [59]"
    and ko: "fst (cachePopn (demoStore [] (Some errNotFound)) 60
      (cache (demoSyncer [59, 60, 61] 5 50 80))) \<noteq> None"
    by (simp_all add: demoStore_def demoSyncer_def)
  have w: "expandFrom (syncWindow (demoSyncer [59, 60, 61] 5 50 80)) 60
      = \<lparr>threshold = 5, epochFrom = 60, epochTo = 60\<rparr>"
    and w0: "syncWindow (demoSyncer [59, 60, 61] 5 50 80)
      = \<lparr>threshold = 5, epochFrom = 50, epochTo = 80\<rparr>"
    and c0: "cacheCalls (demoSyncer [59, 60, 61] 5 50 80) = []"
    by (simp_all add: demoSyncer_def expandFrom_def)
  show ?thesis
    using
      handleNewEpoch_pivot_switch [OF demo_pivot_switch, of "demoStore [] None" "[59, 60, 61]" 5]
      handleNewEpoch_pivot_switch [OF demo_pivot_switch, of "demoStore [] (Some errNotFound)"
        "[59, 60, 61]" 5]
      ok popped ko w w0 c0
    by simp
qed

text \<open>
  C3. When \<open>peekWillPivotSwitch e\<close> is false and \<open>peekWillOverflow e\<close> is true, the
  syncer calls the store's \<open>Flush\<close> once, and nothing else on the store. If \<open>Flush\<close>
  succeeds the window is \<open>reset e e\<close>, that is \<open>{from: e, to: e}\<close>; if it fails the
  window is unchanged.
\<close>

theorem handleNewEpoch_overflow:
  assumes "\<not> peekWillPivotSwitch (syncWindow s) e" and "peekWillOverflow (syncWindow s) e"
  shows "cacheCalls (handleNewEpoch env e s) = cacheCalls s @ [CallFlush]
    \<and> cache (handleNewEpoch env e s) = snd (cacheFlush env (cache s))
    \<and> (fst (cacheFlush env (cache s)) = None \<longrightarrow>
          syncWindow (handleNewEpoch env e s) = reset (syncWindow s) e e
          \<and> epochFrom (syncWindow (handleNewEpoch env e s)) = e
          \<and> epochTo (syncWindow (handleNewEpoch env e s)) = e)
    \<and> (fst (cacheFlush env (cache s)) \<noteq> None \<longrightarrow>
          syncWindow (handleNewEpoch env e s) = syncWindow s)"
proof (cases "cacheFlush env (cache s)")
  case (Pair res c')
  show ?thesis
  proof (cases res)
    case None
    with Pair assms show ?thesis
      by (simp add: handleNewEpoch_def reset_def)
  next
    case (Some err)
    with Pair assms show ?thesis
      by (simp add: handleNewEpoch_def)
  qed
qed

lemma demo_no_pivot_switch: "\<not> peekWillPivotSwitch (syncWindow (demoSyncer c 5 100 100)) 106"
  by (simp add: demoSyncer_def peekWillPivotSwitch_def)

lemma demo_overflow: "peekWillOverflow (syncWindow (demoSyncer c 5 100 100)) 106"
  by (simp add: demoSyncer_def peekWillOverflow_def)

theorem handleNewEpoch_overflow_witness:
  "syncWindow (handleNewEpoch (demoStore [] None) 106 (demoSyncer [98, 99] 5 100 100))
     = \<lparr>threshold = 5, epochFrom = 106, epochTo = 106\<rparr>
   \<and> cacheCalls (handleNewEpoch (demoStore [] None) 106 (demoSyncer [98, 99] 5 100 100))
     = [CallFlush]
   \<and> cache (handleNewEpoch (demoStore [] None) 106 (demoSyncer [98, 99] 5 100 100)) = []
   \<and> syncWindow
       (handleNewEpoch (demoStore [] (Some errNotFound)) 106 (demoSyncer [98, 99] 5 100 100))
     = \<lparr>threshold = 5, epochFrom = 100, epochTo = 100\<rparr>"
proof -
  have ok: "fst (cacheFlush (demoStore [] None) (cache (demoSyncer [98, 99] 5 100 100))) = None"
    and flushed: "snd (cacheFlush (demoStore [] None) (cache (demoSyncer [98, 99] 5 100 100)))
      = []"
    and ko: "fst (cacheFlush (demoStore [] (Some errNotFound))
      (cache (demoSyncer [98, 99] 5 100 100))) \<noteq> None"
    by (simp_all add: demoStore_def demoSyncer_def)
  have w: "reset (syncWindow (demoSyncer [98, 99] 5 100 100)) 106 106
      = \<lparr>threshold = 5, epochFrom = 106, epochTo = 106\<rparr>"
    and w0: "syncWindow (demoSyncer [98, 99] 5 100 100)
      = \<lparr>threshold = 5, epochFrom = 100, epochTo = 100\<rparr>"
    and c0: "cacheCalls (demoSyncer [98, 99] 5 100 100) = []"
    by (simp_all add: demoSyncer_def reset_def)
  show ?thesis
    using
      handleNewEpoch_overflow [OF demo_no_pivot_switch demo_overflow,
        of "demoStore [] None" "[98, 99]"]
      handleNewEpoch_overflow [OF demo_no_pivot_switch demo_overflow,
        of "demoStore [] (Some errNotFound)" "[98, 99]"]
      ok flushed ko w w0 c0
    by simp
qed

subsection \<open>Startup\<close>

lemma word_less_succ:
  fixes M :: u64
  assumes "M \<noteq> - 1"
  shows "M < M + 1"
  using assms by (meson inc_less_eq_triv_imp not_le)

text \<open>
  C5, as stated, fails at the largest \<open>uint64\<close>: when the store reports the maximum
  synced epoch \<open>2^64 - 1\<close>, \<open>maxEpoch + 1\<close> wraps around to 0 and the window is
  \<open>{from: 0, to: 2^64 - 1}\<close>, which is not empty: it holds every epoch.
\<close>

theorem mustLoadLastSyncEpoch_wraps:
  "mustLoadLastSyncEpoch (demoStore [] None) (demoSyncer [18446744073709551615] 5 0 0)
     = Inr (demoSyncer [18446744073709551615] 5 0 18446744073709551615)
   \<and> \<not> isEmpty (syncWindow (demoSyncer [18446744073709551615] 5 0 18446744073709551615))"
  by (simp add: mustLoadLastSyncEpoch_def demoStore_def demoSyncer_def reset_def isEmpty_def)

text \<open>
  C5, amended: if \<open>GetGlobalEpochRange\<close> returns a maximum synced epoch \<open>M\<close> without
  error, the window is reset to \<open>{from: M + 1, to: M}\<close>; for \<open>M\<close> below \<open>2^64 - 1\<close>
  this window is empty and the next epoch to consume is \<open>M + 1\<close>. If the store reports
  a not-found error the window is left as it was, which at startup is the zero state.
  Any other error is fatal: no syncer is returned.
\<close>

theorem mustLoadLastSyncEpoch_window:
  "(GetGlobalEpochRange env (cache s) = Inr (m, M) \<longrightarrow>
      (\<exists>s'. mustLoadLastSyncEpoch env s = Inr s'
         \<and> epochFrom (syncWindow s') = M + 1 \<and> epochTo (syncWindow s') = M
         \<and> cache s' = cache s \<and> cacheCalls s' = cacheCalls s
         \<and> (M \<noteq> - 1 \<longrightarrow>
              isEmpty (syncWindow s') \<and> uint (epochFrom (syncWindow s')) = uint M + 1
              \<and> peekShrinkFrom (syncWindow s') n = (M + 1, 0))))
   \<and> (GetGlobalEpochRange env (cache s) = Inl err \<and> IsRecordNotFound env err \<longrightarrow>
        mustLoadLastSyncEpoch env s = Inr s)
   \<and> (GetGlobalEpochRange env (cache s) = Inl err \<and> \<not> IsRecordNotFound env err \<longrightarrow>
        (\<exists>f. mustLoadLastSyncEpoch env s = Inl f))
   \<and> (ensureStoreEpochDataOk env c = (None, cache s)
        \<and> GetGlobalEpochRange env (cache s) = Inl err \<and> IsRecordNotFound env err \<longrightarrow>
        (\<exists>s'. NewKVCacheSyncer env k c = Inr s'
           \<and> syncWindow s' = newEpochWindow decayedEpochGapThreshold
           \<and> epochFrom (syncWindow s') = 0 \<and> epochTo (syncWindow s') = 0))"
proof (intro conjI impI)
  assume r: "GetGlobalEpochRange env (cache s) = Inr (m, M)"
  let ?s' = "s\<lparr>syncWindow := reset (syncWindow s) (M + 1) M\<rparr>"
  have run: "mustLoadLastSyncEpoch env s = Inr ?s'"
    using r by (simp add: mustLoadLastSyncEpoch_def)
  have empty: "isEmpty (syncWindow ?s') \<and> uint (epochFrom (syncWindow ?s')) = uint M + 1
      \<and> peekShrinkFrom (syncWindow ?s') n = (M + 1, 0)" if "M \<noteq> - 1"
  proof -
    from that have lt: "M < M + 1" by (rule word_less_succ)
    then have "M \<le> M + 1" by simp
    then have "uint (M + 1) = uint M + uint (1 :: u64)"
      by (simp only: uint_plus_simple_iff)
    then have "uint (M + 1) = uint M + 1" by simp
    with lt show ?thesis by (simp add: reset_def isEmpty_def peekShrinkFrom_def)
  qed
  show "\<exists>s'. mustLoadLastSyncEpoch env s = Inr s'
         \<and> epochFrom (syncWindow s') = M + 1 \<and> epochTo (syncWindow s') = M
         \<and> cache s' = cache s \<and> cacheCalls s' = cacheCalls s
         \<and> (M \<noteq> - 1 \<longrightarrow>
              isEmpty (syncWindow s') \<and> uint (epochFrom (syncWindow s')) = uint M + 1
              \<and> peekShrinkFrom (syncWindow s') n = (M + 1, 0))"
    using run empty by (intro exI [of _ ?s']) (simp add: reset_def)
next
  assume "GetGlobalEpochRange env (cache s) = Inl err \<and> IsRecordNotFound env err"
  then show "mustLoadLastSyncEpoch env s = Inr s"
    by (simp add: mustLoadLastSyncEpoch_def)
next
  assume "GetGlobalEpochRange env (cache s) = Inl err \<and> \<not> IsRecordNotFound env err"
  then show "\<exists>f. mustLoadLastSyncEpoch env s = Inl f"
    by (simp add: mustLoadLastSyncEpoch_def)
next
  assume "ensureStoreEpochDataOk env c = (None, cache s)
        \<and> GetGlobalEpochRange env (cache s) = Inl err \<and> IsRecordNotFound env err"
  then show "\<exists>s'. NewKVCacheSyncer env k c = Inr s'
           \<and> syncWindow s' = newEpochWindow decayedEpochGapThreshold
           \<and> epochFrom (syncWindow s') = 0 \<and> epochTo (syncWindow s') = 0"
    by (simp add: NewKVCacheSyncer_def mustLoadLastSyncEpoch_def newEpochWindow_def)
qed

theorem mustLoadLastSyncEpoch_window_witness:
  "mustLoadLastSyncEpoch (demoStore [] None) (demoSyncer [98, 99] 5 0 0)
     = Inr (demoSyncer [98, 99] 5 100 99)
   \<and> isEmpty (syncWindow (demoSyncer [98, 99] 5 100 99))
   \<and> mustLoadLastSyncEpoch (demoStore [] None) (demoSyncer [] 5 0 0)
     = Inr (demoSyncer [] 5 0 0)
   \<and> isl (mustLoadLastSyncEpoch
       ((demoStore [] None)\<lparr>GetGlobalEpochRange := \<lambda>c. Inl (Errorf ''corrupted'' [])\<rparr>)
       (demoSyncer [] 5 0 0))"
proof -
  have found: "GetGlobalEpochRange (demoStore [] None) (cache (demoSyncer [98, 99] 5 0 0))
      = Inr (98, 99)"
    and missing: "GetGlobalEpochRange (demoStore [] None) (cache (demoSyncer [] 5 0 0))
        = Inl errNotFound
      \<and> IsRecordNotFound (demoStore [] None) errNotFound"
    and broken: "GetGlobalEpochRange
        ((demoStore [] None)\<lparr>GetGlobalEpochRange := \<lambda>c. Inl (Errorf ''corrupted'' [])\<rparr>)
        (cache (demoSyncer [] 5 0 0)) = Inl (Errorf ''corrupted'' [])
      \<and> \<not> IsRecordNotFound
        ((demoStore [] None)\<lparr>GetGlobalEpochRange := \<lambda>c. Inl (Errorf ''corrupted'' [])\<rparr>)
        (Errorf ''corrupted'' [])"
    by (simp_all add: demoStore_def demoSyncer_def errNotFound_def)
  have ne: "(99 :: u64) \<noteq> - 1" by simp
  have a: "mustLoadLastSyncEpoch (demoStore [] None) (demoSyncer [98, 99] 5 0 0)
      = Inr (demoSyncer [98, 99] 5 100 99)
      \<and> isEmpty (syncWindow (demoSyncer [98, 99] 5 100 99))"
  proof -
    from mustLoadLastSyncEpoch_window
      [where env = "demoStore [] None" and s = "demoSyncer [98, 99] 5 0 0" and m = 98
        and M = 99 and n = 2] found ne
    obtain s' where s': "mustLoadLastSyncEpoch (demoStore [] None) (demoSyncer [98, 99] 5 0 0)
        = Inr s'" and e: "isEmpty (syncWindow s')"
      by blast
    have "mustLoadLastSyncEpoch (demoStore [] None) (demoSyncer [98, 99] 5 0 0)
        = Inr (demoSyncer [98, 99] 5 100 99)"
      by (simp add: mustLoadLastSyncEpoch_def demoStore_def demoSyncer_def reset_def)
    with s' e show ?thesis by simp
  qed
  have b: "mustLoadLastSyncEpoch (demoStore [] None) (demoSyncer [] 5 0 0)
      = Inr (demoSyncer [] 5 0 0)"
    using mustLoadLastSyncEpoch_window
      [where env = "demoStore [] None" and s = "demoSyncer [] 5 0 0" and err = errNotFound]
      missing
    by blast
  have c: "isl (mustLoadLastSyncEpoch
       ((demoStore [] None)\<lparr>GetGlobalEpochRange := \<lambda>c. Inl (Errorf ''corrupted'' [])\<rparr>)
       (demoSyncer [] 5 0 0))"
    using mustLoadLastSyncEpoch_window
      [where env = "(demoStore [] None)\<lparr>GetGlobalEpochRange :=
          \<lambda>c. Inl (Errorf ''corrupted'' [])\<rparr>"
        and s = "demoSyncer [] 5 0 0" and err = "Errorf ''corrupted'' []"] broken
    by auto
  from a b c show ?thesis by simp
qed

section \<open>Partitioned log store: properties\<close>

subsection \<open>What each operation leaves alone\<close>

lemma collectLogs_frame:
  "collectLogs b ext k ls logs d = (r, d') \<Longrightarrow>
     tables d' = tables d \<and> partitions d' = partitions d \<and> rejects d' = rejects d
     \<and> epochBlockMap d' = epochBlockMap d"
proof (induction ls arbitrary: k logs d)
  case Nil
  then show ?case by simp
next
  case (Cons l ls)
  show ?case
  proof (cases "AddContractIfAbsent (Address l) d")
    case (Pair res d1)
    have d1: "tables d1 = tables d \<and> partitions d1 = partitions d \<and> rejects d1 = rejects d
        \<and> epochBlockMap d1 = epochBlockMap d"
      using Pair by (auto simp: AddContractIfAbsent_def issue_def split: option.splits)
    show ?thesis
    proof (cases res)
      case (Inl err)
      with Pair Cons.prems d1 show ?thesis by auto
    next
      case (Inr found)
      obtain cid created where "found = (cid, created)" by (cases found)
      with Inr Pair Cons.prems obtain ext' where
        "collectLogs b ext (Suc k) ls (logs @ [ParseCfxLog l cid b ext']) d1 = (r, d')"
        by (auto simp: Let_def)
      from Cons.IH [OF this] d1 show ?thesis by simp
    qed
  qed
qed

lemma collectTxs_frame:
  "collectTxs exec data b txs logs d = (r, d') \<Longrightarrow>
     tables d' = tables d \<and> partitions d' = partitions d \<and> rejects d' = rejects d
     \<and> epochBlockMap d' = epochBlockMap d"
proof (induction txs arbitrary: logs d)
  case Nil
  then show ?case by simp
next
  case (Cons tx txs)
  show ?case
  proof (cases "Receipts data (Hash tx) = None \<or> \<not> exec tx")
    case True
    with Cons show ?thesis by simp
  next
    case False
    obtain res d1 where c: "collectLogs b (ReceiptExts data (Hash tx)) 0
        (Logs (the (Receipts data (Hash tx)))) logs d = (res, d1)"
      by (cases "collectLogs b (ReceiptExts data (Hash tx)) 0
        (Logs (the (Receipts data (Hash tx)))) logs d")
    note f = collectLogs_frame [OF c]
    show ?thesis
    proof (cases res)
      case (Inl err)
      with False c Cons.prems f show ?thesis by auto
    next
      case (Inr logs1)
      with False c Cons.prems have "collectTxs exec data b txs logs1 d1 = (r, d')" by auto
      from Cons.IH [OF this] f show ?thesis by simp
    qed
  qed
qed

lemma collectBlocks_frame:
  "collectBlocks exec data bs logs d = (r, d') \<Longrightarrow>
     tables d' = tables d \<and> partitions d' = partitions d \<and> rejects d' = rejects d
     \<and> epochBlockMap d' = epochBlockMap d"
proof (induction bs arbitrary: logs d)
  case Nil
  then show ?case by simp
next
  case (Cons b bs)
  obtain res d1 where c: "collectTxs exec data (BlockNumber b) (Transactions b) logs d = (res, d1)"
    by (cases "collectTxs exec data (BlockNumber b) (Transactions b) logs d")
  note f = collectTxs_frame [OF c]
  show ?case
  proof (cases res)
    case (Inl err)
    with c Cons.prems f show ?thesis by auto
  next
    case (Inr logs1)
    with c Cons.prems have "collectBlocks exec data bs logs1 d1 = (r, d')" by auto
    from Cons.IH [OF this] f show ?thesis by simp
  qed
qed

lemma collectEpochs_frame:
  "collectEpochs exec ds logs d = (r, d') \<Longrightarrow>
     tables d' = tables d \<and> partitions d' = partitions d \<and> rejects d' = rejects d
     \<and> epochBlockMap d' = epochBlockMap d"
proof (induction ds arbitrary: logs d)
  case Nil
  then show ?case by simp
next
  case (Cons data ds)
  obtain res d1 where c: "collectBlocks exec data (Blocks data) logs d = (res, d1)"
    by (cases "collectBlocks exec data (Blocks data) logs d")
  note f = collectBlocks_frame [OF c]
  show ?case
  proof (cases res)
    case (Inl err)
    with c Cons.prems f show ?thesis by auto
  next
    case (Inr logs1)
    with c Cons.prems have "collectEpochs exec ds logs1 d1 = (r, d')" by auto
    from Cons.IH [OF this] f show ?thesis by simp
  qed
qed

lemma CreateInBatches_frame:
  "CreateInBatches idx rows d = (r, d') \<Longrightarrow>
     partitions d' = partitions d \<and> rejects d' = rejects d
     \<and> (\<forall>i. i \<noteq> idx \<longrightarrow> tables d' i = tables d i)"
  by (auto simp: CreateInBatches_def issue_def split: option.splits)

lemma CreateInBatches_ok:
  "CreateInBatches idx rows d = (None, d') \<Longrightarrow>
     tables d' = (tables d)(idx := tables d idx @ rows)"
  by (auto simp: CreateInBatches_def issue_def split: option.splits)

lemma expandBnRange_frame:
  "expandBnRange e idx lo hi d = (r, d') \<Longrightarrow> tables d' = tables d \<and> rejects d' = rejects d"
  by (auto simp: expandBnRange_def issue_def split: option.splits)

lemma expandBnRange_counts:
  "expandBnRange e idx lo hi d = (r, d') \<Longrightarrow>
     map Count (partitions d' e') = map Count (partitions d e')
     \<and> map Index (partitions d' e') = map Index (partitions d e')"
  by (auto simp: expandBnRange_def issue_def widened_def split: option.splits)

lemma deltaUpdateCount_frame:
  "deltaUpdateCount e idx delta d = (r, d') \<Longrightarrow> tables d' = tables d \<and> rejects d' = rejects d"
  by (auto simp: deltaUpdateCount_def issue_def split: option.splits if_splits)

lemma Pushn_tables_frame:
  assumes "Pushn exec ds part d = (r, d')" and "i \<noteq> Index part"
  shows "tables d' i = tables d i"
proof -
  obtain res d1 where c: "collectEpochs exec ds [] d = (res, d1)"
    by (cases "collectEpochs exec ds [] d")
  note f1 = collectEpochs_frame [OF c]
  show ?thesis
  proof (cases res)
    case (Inl err)
    with c assms f1 show ?thesis by (simp add: Pushn_def)
  next
    case (Inr logs)
    show ?thesis
    proof (cases "logs = []")
      case True
      with Inr c assms f1 show ?thesis by (simp add: Pushn_def)
    next
      case False
      obtain r2 d2 where i2: "CreateInBatches (Index part) logs d1 = (r2, d2)"
        by (cases "CreateInBatches (Index part) logs d1")
      from CreateInBatches_frame [OF i2] assms(2) f1 have t2: "tables d2 i = tables d i" by simp
      show ?thesis
      proof (cases "r2 = None \<and> \<not> isl (batchBnRange ds)")
        case False
        with Inr c assms(1) \<open>logs \<noteq> []\<close> i2 t2 show ?thesis
          by (auto simp: Pushn_def split: option.splits sum.splits)
      next
        case True
        then obtain lo hi where rng: "batchBnRange ds = Inr (lo, hi)" and r2: "r2 = None"
          by (cases "batchBnRange ds") auto
        obtain r3 d3 where i3:
          "expandBnRange bnPartitionedLogEntity (Index part) lo hi d2 = (r3, d3)"
          by (cases "expandBnRange bnPartitionedLogEntity (Index part) lo hi d2")
        obtain r4 d4 where i4:
          "deltaUpdateCount bnPartitionedLogEntity (Index part) (int (length logs)) d3 = (r4, d4)"
          by (cases "deltaUpdateCount bnPartitionedLogEntity (Index part) (int (length logs)) d3")
        from expandBnRange_frame [OF i3] deltaUpdateCount_frame [OF i4] t2
        have "tables d3 i = tables d i" "tables d4 i = tables d i" by simp_all
        with Inr c assms(1) \<open>logs \<noteq> []\<close> i2 r2 rng i3 i4 show ?thesis
          by (auto simp: Pushn_def split: option.splits)
      qed
    qed
  qed
qed

subsection \<open>The target partition of a batch\<close>

lemma preparePartition_result:
  assumes "preparePartition ds d = (Inr q, d')"
  shows "tables d' = tables d
    \<and> (if latestOf (partitions d bnPartitionedLogEntity) = None
          \<or> bnPartitionedLogVolumeSize
              \<le> Count (the (latestOf (partitions d bnPartitionedLogEntity)))
        then q = nextPartition (partitions d bnPartitionedLogEntity)
          \<and> partitions d' = (partitions d)
              (bnPartitionedLogEntity := partitions d bnPartitionedLogEntity @ [q])
        else latestOf (partitions d bnPartitionedLogEntity) = Some q
          \<and> partitions d' = partitions d)"
  using assms
  by (auto simp: preparePartition_def latestPartition_def growPartition_def issue_def
      split: option.splits if_splits)

lemma preparePartition_succeeds:
  assumes "rejects d (OpLatestPartition bnPartitionedLogEntity) = None"
    and "rejects d (OpGrowPartition bnPartitionedLogEntity) = None"
  shows "\<exists>q d'. preparePartition ds d = (Inr q, d')"
  using assms
  by (auto simp: preparePartition_def latestPartition_def growPartition_def issue_def
      split: option.splits if_splits)

text \<open>
  C6. When \<open>preparePartition\<close> returns a partition: if a latest partition of
  \<open>logs\<close> exists and its count is below 10,000,000, the result is that partition
  and the metadata is unchanged; if none exists or the latest one's count is
  10,000,000 or more, the result is the new partition \<open>growPartition\<close> registers
  (next index, count 0, range unset), appended to the metadata. It returns a partition
  whenever the database rejects neither call. The rows of a batch pushed with the
  prepared partition go to that partition's table only.
\<close>

theorem preparePartition_single_target:
  "(preparePartition ds d = (Inr q, d') \<longrightarrow>
      tables d' = tables d
      \<and> (if latestOf (partitions d bnPartitionedLogEntity) = None
            \<or> 10000000 \<le> Count (the (latestOf (partitions d bnPartitionedLogEntity)))
          then q = nextPartition (partitions d bnPartitionedLogEntity)
            \<and> partitions d' = (partitions d)
                (bnPartitionedLogEntity := partitions d bnPartitionedLogEntity @ [q])
            \<and> Count q = 0 \<and> BnMin q = None \<and> BnMax q = None
            \<and> Index q = (case latestOf (partitions d bnPartitionedLogEntity) of
                           None \<Rightarrow> 0 | Some p \<Rightarrow> Index p + 1)
          else latestOf (partitions d bnPartitionedLogEntity) = Some q
            \<and> partitions d' = partitions d))
   \<and> (rejects d (OpLatestPartition bnPartitionedLogEntity) = None
        \<and> rejects d (OpGrowPartition bnPartitionedLogEntity) = None \<longrightarrow>
        (\<exists>q d'. preparePartition ds d = (Inr q, d')))
   \<and> (preparePartition ds d = (Inr q, d') \<and> Pushn exec ds q d' = (r, d'') \<longrightarrow>
        (\<forall>i. i \<noteq> Index q \<longrightarrow> tables d'' i = tables d i))"
proof (intro conjI)
  show "preparePartition ds d = (Inr q, d') \<longrightarrow>
      tables d' = tables d
      \<and> (if latestOf (partitions d bnPartitionedLogEntity) = None
            \<or> 10000000 \<le> Count (the (latestOf (partitions d bnPartitionedLogEntity)))
          then q = nextPartition (partitions d bnPartitionedLogEntity)
            \<and> partitions d' = (partitions d)
                (bnPartitionedLogEntity := partitions d bnPartitionedLogEntity @ [q])
            \<and> Count q = 0 \<and> BnMin q = None \<and> BnMax q = None
            \<and> Index q = (case latestOf (partitions d bnPartitionedLogEntity) of
                           None \<Rightarrow> 0 | Some p \<Rightarrow> Index p + 1)
          else latestOf (partitions d bnPartitionedLogEntity) = Some q
            \<and> partitions d' = partitions d)"
  proof
    assume a: "preparePartition ds d = (Inr q, d')"
    from preparePartition_result [OF a]
    show "tables d' = tables d
      \<and> (if latestOf (partitions d bnPartitionedLogEntity) = None
            \<or> 10000000 \<le> Count (the (latestOf (partitions d bnPartitionedLogEntity)))
          then q = nextPartition (partitions d bnPartitionedLogEntity)
            \<and> partitions d' = (partitions d)
                (bnPartitionedLogEntity := partitions d bnPartitionedLogEntity @ [q])
            \<and> Count q = 0 \<and> BnMin q = None \<and> BnMax q = None
            \<and> Index q = (case latestOf (partitions d bnPartitionedLogEntity) of
                           None \<Rightarrow> 0 | Some p \<Rightarrow> Index p + 1)
          else latestOf (partitions d bnPartitionedLogEntity) = Some q
            \<and> partitions d' = partitions d)"
      by (simp add: bnPartitionedLogVolumeSize_def nextPartition_def split: if_splits)
  qed
next
  show "rejects d (OpLatestPartition bnPartitionedLogEntity) = None
        \<and> rejects d (OpGrowPartition bnPartitionedLogEntity) = None \<longrightarrow>
        (\<exists>q d'. preparePartition ds d = (Inr q, d'))"
    using preparePartition_succeeds [of d ds] by blast
next
  show "preparePartition ds d = (Inr q, d') \<and> Pushn exec ds q d' = (r, d'') \<longrightarrow>
        (\<forall>i. i \<noteq> Index q \<longrightarrow> tables d'' i = tables d i)"
  proof (intro allI impI)
    fix i
    assume a: "preparePartition ds d = (Inr q, d') \<and> Pushn exec ds q d' = (r, d'')"
      and "i \<noteq> Index q"
    with Pushn_tables_frame [of exec ds q d' r d'' i] preparePartition_result [of ds d q d']
    show "tables d'' i = tables d i" by simp
  qed
qed

theorem preparePartition_single_target_witness:
  "fst (preparePartition [] (demoDb [demoPartition 0 10000000] (\<lambda>i. [])))
     = Inr \<lparr>Index = 1, BnMin = None, BnMax = None, Count = 0\<rparr>
   \<and> fst (preparePartition [] (demoDb [demoPartition 0 9999999] (\<lambda>i. [])))
     = Inr (demoPartition 0 9999999)
   \<and> fst (preparePartition [] (demoDb [] (\<lambda>i. [])))
     = Inr \<lparr>Index = 0, BnMin = None, BnMax = None, Count = 0\<rparr>"
proof -
  have run: "fst (preparePartition [] (demoDb ps (\<lambda>i. [])))
      = Inr (if latestOf ps = None \<or> 10000000 \<le> Count (the (latestOf ps))
             then nextPartition ps else the (latestOf ps))" for ps
  proof -
    have "rejects (demoDb ps (\<lambda>i. [])) (OpLatestPartition bnPartitionedLogEntity) = None
        \<and> rejects (demoDb ps (\<lambda>i. [])) (OpGrowPartition bnPartitionedLogEntity) = None"
      by (simp add: demoDb_def)
    with preparePartition_single_target [of "[]" "demoDb ps (\<lambda>i. [])"]
    obtain q d' where q: "preparePartition [] (demoDb ps (\<lambda>i. [])) = (Inr q, d')"
      by blast
    have "partitions (demoDb ps (\<lambda>i. [])) bnPartitionedLogEntity = ps"
      by (simp add: demoDb_def)
    with preparePartition_single_target [of "[]" "demoDb ps (\<lambda>i. [])" q d'] q
    show ?thesis by (auto split: if_splits)
  qed
  show ?thesis
    by (simp add: run demoPartition_def nextPartition_def)
qed

subsection \<open>The rows of a batch\<close>

lemma collectLogs_rows:
  "collectLogs b ext k ls logs d = (Inr out, d') \<Longrightarrow>
     \<exists>rows. out = logs @ rows \<and> list_all2 recordOf (map (Pair b) ls) rows"
proof (induction ls arbitrary: k logs d)
  case Nil
  then show ?case by simp
next
  case (Cons l ls)
  from Cons.prems obtain cid created d1 where
    a: "AddContractIfAbsent (Address l) d = (Inr (cid, created), d1)"
    by (auto split: prod.splits sum.splits)
  with Cons.prems obtain ext' where
    rest: "collectLogs b ext (Suc k) ls (logs @ [ParseCfxLog l cid b ext']) d1 = (Inr out, d')"
    by (auto simp: Let_def)
  from Cons.IH [OF rest] obtain rows where
    rows: "out = (logs @ [ParseCfxLog l cid b ext']) @ rows"
      "list_all2 recordOf (map (Pair b) ls) rows"
    by blast
  have "recordOf (b, l) (ParseCfxLog l cid b ext')"
    by (simp add: recordOf_def ParseCfxLog_def)
  with rows have "out = logs @ (ParseCfxLog l cid b ext' # rows)
      \<and> list_all2 recordOf (map (Pair b) (l # ls)) (ParseCfxLog l cid b ext' # rows)"
    by simp
  then show ?case by blast
qed

lemma collectTxs_rows:
  "collectTxs exec data b txs logs d = (Inr out, d') \<Longrightarrow>
     \<exists>rows. out = logs @ rows
       \<and> list_all2 recordOf (concat (map (\<lambda>tx. map (Pair b) (txLogs exec data tx)) txs)) rows"
proof (induction txs arbitrary: logs d)
  case Nil
  then show ?case by simp
next
  case (Cons tx txs)
  show ?case
  proof (cases "contributes exec data tx")
    case False
    with Cons.prems have "collectTxs exec data b txs logs d = (Inr out, d')"
      by (auto simp: contributes_def)
    from Cons.IH [OF this] False show ?thesis by (simp add: txLogs_def)
  next
    case True
    with Cons.prems obtain logs1 d1 where
      c: "collectLogs b (ReceiptExts data (Hash tx)) 0 (Logs (the (Receipts data (Hash tx))))
            logs d = (Inr logs1, d1)"
      and rest: "collectTxs exec data b txs logs1 d1 = (Inr out, d')"
      by (auto simp: contributes_def split: prod.splits sum.splits)
    from collectLogs_rows [OF c] obtain rows1 where
      r1: "logs1 = logs @ rows1" "list_all2 recordOf (map (Pair b) (txLogs exec data tx)) rows1"
      using True by (auto simp: txLogs_def)
    from Cons.IH [OF rest] obtain rows2 where
      r2: "out = logs1 @ rows2"
        "list_all2 recordOf (concat (map (\<lambda>tx. map (Pair b) (txLogs exec data tx)) txs)) rows2"
      by blast
    from r1 r2 have "out = logs @ (rows1 @ rows2)
        \<and> list_all2 recordOf
            (concat (map (\<lambda>tx. map (Pair b) (txLogs exec data tx)) (tx # txs))) (rows1 @ rows2)"
      by (simp add: list_all2_appendI)
    then show ?thesis by blast
  qed
qed

lemma collectBlocks_rows:
  "collectBlocks exec data bs logs d = (Inr out, d') \<Longrightarrow>
     \<exists>rows. out = logs @ rows
       \<and> list_all2 recordOf (concat (map (blockLogs exec data) bs)) rows"
proof (induction bs arbitrary: logs d)
  case Nil
  then show ?case by simp
next
  case (Cons b bs)
  from Cons.prems obtain logs1 d1 where
    c: "collectTxs exec data (BlockNumber b) (Transactions b) logs d = (Inr logs1, d1)"
    and rest: "collectBlocks exec data bs logs1 d1 = (Inr out, d')"
    by (auto split: prod.splits sum.splits)
  from collectTxs_rows [OF c] obtain rows1 where
    r1: "logs1 = logs @ rows1" "list_all2 recordOf (blockLogs exec data b) rows1"
    by (auto simp: blockLogs_def)
  from Cons.IH [OF rest] obtain rows2 where
    r2: "out = logs1 @ rows2" "list_all2 recordOf (concat (map (blockLogs exec data) bs)) rows2"
    by blast
  from r1 r2 have "out = logs @ (rows1 @ rows2)
      \<and> list_all2 recordOf (concat (map (blockLogs exec data) (b # bs))) (rows1 @ rows2)"
    by (simp add: list_all2_appendI)
  then show ?case by blast
qed

lemma collectEpochs_rows:
  "collectEpochs exec ds logs d = (Inr out, d') \<Longrightarrow>
     \<exists>rows. out = logs @ rows \<and> list_all2 recordOf (batchLogs exec ds) rows"
proof (induction ds arbitrary: logs d)
  case Nil
  then show ?case by (simp add: batchLogs_def)
next
  case (Cons data ds)
  from Cons.prems obtain logs1 d1 where
    c: "collectBlocks exec data (Blocks data) logs d = (Inr logs1, d1)"
    and rest: "collectEpochs exec ds logs1 d1 = (Inr out, d')"
    by (auto split: prod.splits sum.splits)
  from collectBlocks_rows [OF c] obtain rows1 where
    r1: "logs1 = logs @ rows1" "list_all2 recordOf (epochLogs exec data) rows1"
    by (auto simp: epochLogs_def)
  from Cons.IH [OF rest] obtain rows2 where
    r2: "out = logs1 @ rows2" "list_all2 recordOf (batchLogs exec ds) rows2"
    by blast
  from r1 r2 have "out = logs @ (rows1 @ rows2)
      \<and> list_all2 recordOf (batchLogs exec (data # ds)) (rows1 @ rows2)"
    by (simp add: list_all2_appendI batchLogs_def)
  then show ?case by blast
qed

lemma deltaUpdateCount_counts:
  assumes "deltaUpdateCount e idx delta d = (None, d')"
  shows "map Index (partitions d' e) = map Index (partitions d e)"
    and "map Count (partitions d' e) =
      map (\<lambda>p. if Index p = idx then nat (int (Count p) + delta) else Count p) (partitions d e)"
    and "\<forall>p \<in> set (partitions d e). Index p = idx \<longrightarrow> 0 \<le> int (Count p) + delta"
    and "\<And>e'. e' \<noteq> e \<Longrightarrow> partitions d' e' = partitions d e'"
  using assms
  by (auto simp: deltaUpdateCount_def issue_def countInRange_def list_all_iff
      split: option.splits if_splits)

lemma batchLogs_member:
  "(bl \<in> set (batchLogs exec ds)) =
     (\<exists>data \<in> set ds. \<exists>b \<in> set (Blocks data). \<exists>tx \<in> set (Transactions b).
        Receipts data (Hash tx) \<noteq> None \<and> exec tx \<and> fst bl = BlockNumber b
        \<and> snd bl \<in> set (Logs (the (Receipts data (Hash tx)))))"
  by (cases bl)
    (fastforce simp: batchLogs_def epochLogs_def blockLogs_def txLogs_def contributes_def
      split: if_splits)

lemma batchLogs_length:
  "length (batchLogs exec ds) =
     (\<Sum>data\<leftarrow>ds. \<Sum>b\<leftarrow>Blocks data. \<Sum>tx\<leftarrow>Transactions b.
        if Receipts data (Hash tx) \<noteq> None \<and> exec tx
        then length (Logs (the (Receipts data (Hash tx)))) else 0)"
proof -
  have tx: "length (map (Pair n) (txLogs exec data tx)) =
      (if Receipts data (Hash tx) \<noteq> None \<and> exec tx
       then length (Logs (the (Receipts data (Hash tx)))) else 0)" for n data tx
    by (simp add: txLogs_def contributes_def)
  have blk: "length (blockLogs exec data b) =
      (\<Sum>tx\<leftarrow>Transactions b.
        if Receipts data (Hash tx) \<noteq> None \<and> exec tx
        then length (Logs (the (Receipts data (Hash tx)))) else 0)" for data b
    unfolding blockLogs_def length_concat map_map comp_def tx ..
  have ep: "length (epochLogs exec data) =
      (\<Sum>b\<leftarrow>Blocks data. \<Sum>tx\<leftarrow>Transactions b.
        if Receipts data (Hash tx) \<noteq> None \<and> exec tx
        then length (Logs (the (Receipts data (Hash tx)))) else 0)" for data
    unfolding epochLogs_def length_concat map_map comp_def blk ..
  show ?thesis
    unfolding batchLogs_def length_concat map_map comp_def ep ..
qed

lemma same_counts:
  "map Count xs = map Count ys \<Longrightarrow> map Index xs = map Index ys \<Longrightarrow>
     map (\<lambda>p. if Index p = i then f (Count p) else Count p) xs
       = map (\<lambda>p. if Index p = i then f (Count p) else Count p) ys"
proof (induction xs arbitrary: ys)
  case Nil
  then show ?case by simp
next
  case (Cons x xs)
  then obtain y ys' where "ys = y # ys'" by (cases ys) auto
  with Cons show ?case by simp
qed

lemma Pushn_steps:
  assumes "Pushn exec ds part d = (None, d')"
  shows "\<exists>logs d1. collectEpochs exec ds [] d = (Inr logs, d1)
      \<and> (if logs = [] then d' = d1
          else \<exists>d2 lo hi d3. CreateInBatches (Index part) logs d1 = (None, d2)
            \<and> expandBnRange bnPartitionedLogEntity (Index part) lo hi d2 = (None, d3)
            \<and> deltaUpdateCount bnPartitionedLogEntity (Index part) (int (length logs)) d3
                = (None, d'))"
proof -
  obtain res d1 where c: "collectEpochs exec ds [] d = (res, d1)"
    by (cases "collectEpochs exec ds [] d")
  with assms obtain logs where res: "res = Inr logs"
    by (cases res) (simp_all add: Pushn_def)
  show ?thesis
  proof (cases "logs = []")
    case True
    with c res assms show ?thesis by (simp add: Pushn_def)
  next
    case False
    obtain r2 d2 where i2: "CreateInBatches (Index part) logs d1 = (r2, d2)"
      by (cases "CreateInBatches (Index part) logs d1")
    with c res False assms have r2: "r2 = None"
      by (cases r2) (simp_all add: Pushn_def)
    from c res False assms i2 r2 obtain lo hi where rng: "batchBnRange ds = Inr (lo, hi)"
      by (cases "batchBnRange ds") (auto simp: Pushn_def)
    obtain r3 d3 where i3:
      "expandBnRange bnPartitionedLogEntity (Index part) lo hi d2 = (r3, d3)"
      by (cases "expandBnRange bnPartitionedLogEntity (Index part) lo hi d2")
    with c res False assms i2 r2 rng have r3: "r3 = None"
      by (cases r3) (simp_all add: Pushn_def)
    obtain r4 d4 where i4:
      "deltaUpdateCount bnPartitionedLogEntity (Index part) (int (length logs)) d3 = (r4, d4)"
      by (cases "deltaUpdateCount bnPartitionedLogEntity (Index part) (int (length logs)) d3")
    with c res False assms i2 r2 rng i3 r3 have "r4 = None \<and> d4 = d'"
      by (cases r4) (simp_all add: Pushn_def)
    with c res False i2 r2 i3 r3 i4 show ?thesis by auto
  qed
qed

lemma Pushn_result:
  assumes "Pushn exec ds part d = (None, d')"
  shows "\<exists>rows. tables d' = (tables d)(Index part := tables d (Index part) @ rows)
      \<and> list_all2 recordOf (batchLogs exec ds) rows
      \<and> map Count (partitions d' bnPartitionedLogEntity) =
          map (\<lambda>p. if Index p = Index part then Count p + length rows else Count p)
            (partitions d bnPartitionedLogEntity)
      \<and> map Index (partitions d' bnPartitionedLogEntity) =
          map Index (partitions d bnPartitionedLogEntity)"
proof -
  from Pushn_steps [OF assms] obtain logs d1 where
    c: "collectEpochs exec ds [] d = (Inr logs, d1)"
    and steps: "if logs = [] then d' = d1
          else \<exists>d2 lo hi d3. CreateInBatches (Index part) logs d1 = (None, d2)
            \<and> expandBnRange bnPartitionedLogEntity (Index part) lo hi d2 = (None, d3)
            \<and> deltaUpdateCount bnPartitionedLogEntity (Index part) (int (length logs)) d3
                = (None, d')"
    by blast
  note f1 = collectEpochs_frame [OF c]
  from collectEpochs_rows [OF c] have rows: "list_all2 recordOf (batchLogs exec ds) logs"
    by simp
  have "tables d' = (tables d)(Index part := tables d (Index part) @ logs)
      \<and> map Count (partitions d' bnPartitionedLogEntity) =
          map (\<lambda>p. if Index p = Index part then Count p + length logs else Count p)
            (partitions d bnPartitionedLogEntity)
      \<and> map Index (partitions d' bnPartitionedLogEntity) =
          map Index (partitions d bnPartitionedLogEntity)"
  proof (cases "logs = []")
    case True
    with steps have "d' = d1" by simp
    with f1 True show ?thesis by simp
  next
    case False
    with steps obtain d2 lo hi d3 where
      i2: "CreateInBatches (Index part) logs d1 = (None, d2)"
      and i3: "expandBnRange bnPartitionedLogEntity (Index part) lo hi d2 = (None, d3)"
      and i4: "deltaUpdateCount bnPartitionedLogEntity (Index part) (int (length logs)) d3
        = (None, d')"
      by auto
    from CreateInBatches_ok [OF i2] CreateInBatches_frame [OF i2] f1
    have t2: "tables d2 = (tables d)(Index part := tables d (Index part) @ logs)"
      and p2: "partitions d2 = partitions d"
      by simp_all
    from expandBnRange_frame [OF i3] deltaUpdateCount_frame [OF i4] t2
    have t: "tables d' = (tables d)(Index part := tables d (Index part) @ logs)" by simp
    from expandBnRange_counts [OF i3, of bnPartitionedLogEntity] p2
    have p3: "map Count (partitions d3 bnPartitionedLogEntity)
        = map Count (partitions d bnPartitionedLogEntity)"
      "map Index (partitions d3 bnPartitionedLogEntity)
        = map Index (partitions d bnPartitionedLogEntity)"
      by simp_all
    have idx: "map Index (partitions d' bnPartitionedLogEntity)
        = map Index (partitions d bnPartitionedLogEntity)"
      using deltaUpdateCount_counts(1) [OF i4] p3(2) by simp
    have "map Count (partitions d' bnPartitionedLogEntity) =
        map (\<lambda>p. if Index p = Index part then nat (int (Count p) + int (length logs))
          else Count p) (partitions d3 bnPartitionedLogEntity)"
      by (rule deltaUpdateCount_counts(2) [OF i4])
    also have "\<dots> =
        map (\<lambda>p. if Index p = Index part then nat (int (Count p) + int (length logs))
          else Count p) (partitions d bnPartitionedLogEntity)"
      by (rule same_counts [OF p3])
    also have "\<dots> =
        map (\<lambda>p. if Index p = Index part then Count p + length logs else Count p)
          (partitions d bnPartitionedLogEntity)"
      by (simp add: nat_int_add)
    finally show ?thesis using t idx by simp
  qed
  with rows show ?thesis by blast
qed

subsection \<open>The rows and the count after a push\<close>

text \<open>
  C7. When \<open>Pushn\<close> returns without error, the rows appended to the target
  partition's table are, one for one and in order, the records of the logs of
  \<open>batchLogs\<close>: a log is among them exactly when it is a log of the receipt of a
  transaction of the batch that has a receipt in its epoch's receipt map and passes
  the execution check. No other table changes, and the count of the target partition
  is increased by exactly the number of rows appended, the other counts being kept.
\<close>

theorem Pushn_rows_and_count:
  assumes "Pushn exec ds part d = (None, d')"
  shows "(\<exists>rows. tables d' = (tables d)(Index part := tables d (Index part) @ rows)
      \<and> list_all2 recordOf (batchLogs exec ds) rows
      \<and> length rows =
          (\<Sum>data\<leftarrow>ds. \<Sum>b\<leftarrow>Blocks data. \<Sum>tx\<leftarrow>Transactions b.
             if Receipts data (Hash tx) \<noteq> None \<and> exec tx
             then length (Logs (the (Receipts data (Hash tx)))) else 0)
      \<and> map Count (partitions d' bnPartitionedLogEntity) =
          map (\<lambda>p. if Index p = Index part then Count p + length rows else Count p)
            (partitions d bnPartitionedLogEntity)
      \<and> map Index (partitions d' bnPartitionedLogEntity) =
          map Index (partitions d bnPartitionedLogEntity))
    \<and> (\<forall>bl. (bl \<in> set (batchLogs exec ds)) =
          (\<exists>data \<in> set ds. \<exists>b \<in> set (Blocks data). \<exists>tx \<in> set (Transactions b).
             Receipts data (Hash tx) \<noteq> None \<and> exec tx \<and> fst bl = BlockNumber b
             \<and> snd bl \<in> set (Logs (the (Receipts data (Hash tx))))))"
proof
  from Pushn_result [OF assms] obtain rows where
    rows: "tables d' = (tables d)(Index part := tables d (Index part) @ rows)"
      "list_all2 recordOf (batchLogs exec ds) rows"
      "map Count (partitions d' bnPartitionedLogEntity) =
          map (\<lambda>p. if Index p = Index part then Count p + length rows else Count p)
            (partitions d bnPartitionedLogEntity)"
      "map Index (partitions d' bnPartitionedLogEntity) =
          map Index (partitions d bnPartitionedLogEntity)"
    by blast
  from rows(2) have "length rows = length (batchLogs exec ds)"
    by (simp add: list_all2_lengthD)
  then have "length rows =
          (\<Sum>data\<leftarrow>ds. \<Sum>b\<leftarrow>Blocks data. \<Sum>tx\<leftarrow>Transactions b.
             if Receipts data (Hash tx) \<noteq> None \<and> exec tx
             then length (Logs (the (Receipts data (Hash tx)))) else 0)"
    by (simp only: batchLogs_length)
  with rows show "\<exists>rows. tables d' = (tables d)(Index part := tables d (Index part) @ rows)
      \<and> list_all2 recordOf (batchLogs exec ds) rows
      \<and> length rows =
          (\<Sum>data\<leftarrow>ds. \<Sum>b\<leftarrow>Blocks data. \<Sum>tx\<leftarrow>Transactions b.
             if Receipts data (Hash tx) \<noteq> None \<and> exec tx
             then length (Logs (the (Receipts data (Hash tx)))) else 0)
      \<and> map Count (partitions d' bnPartitionedLogEntity) =
          map (\<lambda>p. if Index p = Index part then Count p + length rows else Count p)
            (partitions d bnPartitionedLogEntity)
      \<and> map Index (partitions d' bnPartitionedLogEntity) =
          map Index (partitions d bnPartitionedLogEntity)"
    by blast
next
  show "\<forall>bl. (bl \<in> set (batchLogs exec ds)) =
          (\<exists>data \<in> set ds. \<exists>b \<in> set (Blocks data). \<exists>tx \<in> set (Transactions b).
             Receipts data (Hash tx) \<noteq> None \<and> exec tx \<and> fst bl = BlockNumber b
             \<and> snd bl \<in> set (Logs (the (Receipts data (Hash tx)))))"
    by (intro allI batchLogs_member)
qed

lemma demo_Pushn_ok:
  "fst (Pushn demoExecuted [demoEpoch [demoTx ''a'' True, demoTx ''b'' True, demoTx ''c'' False]]
     (demoPartition 0 5) (demoDb [demoPartition 0 5] (\<lambda>i. []))) = None"
  by (simp add: Pushn_def demoEpoch_def demoTx_def demoExecuted_def demoLog_def demoDb_def
      demoPartition_def AddContractIfAbsent_def issue_def CreateInBatches_def batchBnRange_def
      expandBnRange_def widened_def deltaUpdateCount_def countInRange_def
      bnPartitionedLogEntity_def)

theorem Pushn_rows_and_count_witness:
  "fst (Pushn demoExecuted [demoEpoch [demoTx ''a'' True, demoTx ''b'' True, demoTx ''c'' False]]
     (demoPartition 0 5) (demoDb [demoPartition 0 5] (\<lambda>i. []))) = None
   \<and> length (tables (snd (Pushn demoExecuted
       [demoEpoch [demoTx ''a'' True, demoTx ''b'' True, demoTx ''c'' False]]
       (demoPartition 0 5) (demoDb [demoPartition 0 5] (\<lambda>i. [])))) 0) = 2
   \<and> map Count (partitions (snd (Pushn demoExecuted
       [demoEpoch [demoTx ''a'' True, demoTx ''b'' True, demoTx ''c'' False]]
       (demoPartition 0 5) (demoDb [demoPartition 0 5] (\<lambda>i. [])))) bnPartitionedLogEntity) = [7]"
proof -
  let ?ds = "[demoEpoch [demoTx ''a'' True, demoTx ''b'' True, demoTx ''c'' False]]"
  let ?d = "demoDb [demoPartition 0 5] (\<lambda>i. [])"
  let ?d' = "snd (Pushn demoExecuted ?ds (demoPartition 0 5) ?d)"
  have run: "Pushn demoExecuted ?ds (demoPartition 0 5) ?d = (None, ?d')"
    using demo_Pushn_ok by (metis prod.collapse)
  have n: "(\<Sum>data\<leftarrow>?ds. \<Sum>b\<leftarrow>Blocks data. \<Sum>tx\<leftarrow>Transactions b.
             if Receipts data (Hash tx) \<noteq> None \<and> demoExecuted tx
             then length (Logs (the (Receipts data (Hash tx)))) else 0) = 2"
    by (simp add: demoEpoch_def demoTx_def demoExecuted_def)
  from Pushn_rows_and_count [OF run] n obtain rows where
    rows: "tables ?d' = (tables ?d)(Index (demoPartition 0 5) :=
        tables ?d (Index (demoPartition 0 5)) @ rows)"
      "length rows = 2"
      "map Count (partitions ?d' bnPartitionedLogEntity) =
          map (\<lambda>p. if Index p = Index (demoPartition 0 5) then Count p + length rows
            else Count p) (partitions ?d bnPartitionedLogEntity)"
    by auto
  from rows have "length (tables ?d' 0) = 2"
    by (simp add: demoDb_def demoPartition_def)
  moreover from rows have "map Count (partitions ?d' bnPartitionedLogEntity) = [7]"
    by (simp add: demoDb_def demoPartition_def)
  ultimately show ?thesis using demo_Pushn_ok by simp
qed

subsection \<open>A batch without log records\<close>

lemma collectTxs_nothing:
  assumes "\<forall>tx \<in> set txs. Receipts data (Hash tx) = None \<or> \<not> exec tx
      \<or> Logs (the (Receipts data (Hash tx))) = []"
  shows "collectTxs exec data b txs logs d = (Inr logs, d)"
  using assms by (induction txs) auto

lemma collectBlocks_nothing:
  assumes "\<forall>b \<in> set bs. \<forall>tx \<in> set (Transactions b).
      Receipts data (Hash tx) = None \<or> \<not> exec tx \<or> Logs (the (Receipts data (Hash tx))) = []"
  shows "collectBlocks exec data bs logs d = (Inr logs, d)"
  using assms by (induction bs) (simp_all add: collectTxs_nothing)

lemma collectEpochs_nothing:
  assumes "\<forall>data \<in> set ds. \<forall>b \<in> set (Blocks data). \<forall>tx \<in> set (Transactions b).
      Receipts data (Hash tx) = None \<or> \<not> exec tx \<or> Logs (the (Receipts data (Hash tx))) = []"
  shows "collectEpochs exec ds logs d = (Inr logs, d)"
  using assms by (induction ds) (simp_all add: collectBlocks_nothing)

text \<open>
  C10. When every transaction of the batch has no receipt, or fails the execution
  check, or has a receipt without logs, \<open>Pushn\<close> returns without error and the
  database is exactly as before: no row is inserted, the partition metadata (range
  and count) is unchanged, and no operation is issued at all.
\<close>

theorem Pushn_nothing_to_insert:
  assumes "\<forall>data \<in> set ds. \<forall>b \<in> set (Blocks data). \<forall>tx \<in> set (Transactions b).
      Receipts data (Hash tx) = None \<or> \<not> exec tx \<or> Logs (the (Receipts data (Hash tx))) = []"
  shows "Pushn exec ds part d = (None, d)
    \<and> tables (snd (Pushn exec ds part d)) = tables d
    \<and> partitions (snd (Pushn exec ds part d)) = partitions d
    \<and> journal (snd (Pushn exec ds part d)) = journal d"
proof -
  from assms have "collectEpochs exec ds [] d = (Inr [], d)"
    by (rule collectEpochs_nothing)
  then have "Pushn exec ds part d = (None, d)"
    by (simp add: Pushn_def)
  then show ?thesis by simp
qed

theorem Pushn_nothing_to_insert_witness:
  "Pushn demoExecuted [demoEpoch [demoTx ''b'' True, demoTx ''c'' False]]
     (demoPartition 0 5) (demoDb [demoPartition 0 5] (\<lambda>i. []))
   = (None, demoDb [demoPartition 0 5] (\<lambda>i. []))"
proof -
  have "\<forall>data \<in> set [demoEpoch [demoTx ''b'' True, demoTx ''c'' False]].
      \<forall>b \<in> set (Blocks data). \<forall>tx \<in> set (Transactions b).
        Receipts data (Hash tx) = None \<or> \<not> demoExecuted tx
        \<or> Logs (the (Receipts data (Hash tx))) = []"
    by (simp add: demoEpoch_def demoTx_def demoExecuted_def)
  from Pushn_nothing_to_insert [OF this] show ?thesis by simp
qed

subsection \<open>Reverting to an epoch\<close>

lemma deletes_append: "deletes (xs @ ys) = deletes xs @ deletes ys"
  by (induction xs rule: deletes.induct) simp_all

lemma Delete_ok:
  assumes "Delete idx b d = (Inr n, d')"
  shows "tables d' = (tables d)(idx := filter (\<lambda>row. \<not> b \<le> bn row) (tables d idx))"
    and "n = length (filter (\<lambda>row. b \<le> bn row) (tables d idx))"
    and "partitions d' = partitions d"
    and "journal d' = journal d @ [OpDelete idx b]"
  using assms by (auto simp: Delete_def issue_def split: option.splits)

lemma deltaUpdateCount_ok:
  assumes "deltaUpdateCount e idx delta d = (None, d')"
  shows "tables d' = tables d"
    and "journal d' = journal d @ [OpDeltaUpdateCount e idx delta]"
    and "partitions d' e =
      map (\<lambda>p. if Index p = idx then p\<lparr>Count := nat (int (Count p) + delta)\<rparr> else p)
        (partitions d e)"
    and "\<forall>p \<in> set (partitions d e). Index p = idx \<longrightarrow> 0 \<le> int (Count p) + delta"
  using assms
  by (auto simp: deltaUpdateCount_def issue_def countInRange_def list_all_iff
      split: option.splits if_splits)

lemma popPartitions_step:
  assumes "popPartitions b (p # ps) d = (None, d')"
  shows "\<exists>n d1 d2. Delete (Index p) b d = (Inr n, d1)
      \<and> deltaUpdateCount bnPartitionedLogEntity (Index p) (- int n) d1 = (None, d2)
      \<and> popPartitions b ps d2 = (None, d')"
proof -
  obtain r1 d1 where s1: "Delete (Index p) b d = (r1, d1)"
    by (cases "Delete (Index p) b d")
  with assms obtain n where r1: "r1 = Inr n" by (cases r1) simp_all
  obtain r2 d2 where s2:
    "deltaUpdateCount bnPartitionedLogEntity (Index p) (- int n) d1 = (r2, d2)"
    by (cases "deltaUpdateCount bnPartitionedLogEntity (Index p) (- int n) d1")
  with assms s1 r1 have "r2 = None" by (cases r2) simp_all
  with assms s1 r1 s2 show ?thesis by simp
qed

lemma popPartitions_tables:
  "popPartitions b ps d = (None, d') \<Longrightarrow>
     tables d' i = (if i \<in> Index ` set ps then filter (\<lambda>row. \<not> b \<le> bn row) (tables d i)
                    else tables d i)"
proof (induction ps arbitrary: d)
  case Nil
  then show ?case by simp
next
  case (Cons p ps)
  from popPartitions_step [OF Cons.prems] obtain n d1 d2 where
    s1: "Delete (Index p) b d = (Inr n, d1)"
    and s2: "deltaUpdateCount bnPartitionedLogEntity (Index p) (- int n) d1 = (None, d2)"
    and rest: "popPartitions b ps d2 = (None, d')"
    by blast
  have t2: "tables d2 = (tables d)(Index p := filter (\<lambda>row. \<not> b \<le> bn row) (tables d (Index p)))"
    using Delete_ok(1) [OF s1] deltaUpdateCount_ok(1) [OF s2] by simp
  from Cons.IH [OF rest] t2 show ?case by simp
qed

lemma popPartitions_journal:
  "popPartitions b ps d = (None, d') \<Longrightarrow>
     \<exists>ops. journal d' = journal d @ ops \<and> deletes ops = map Index ps"
proof (induction ps arbitrary: d)
  case Nil
  then show ?case by simp
next
  case (Cons p ps)
  from popPartitions_step [OF Cons.prems] obtain n d1 d2 where
    s1: "Delete (Index p) b d = (Inr n, d1)"
    and s2: "deltaUpdateCount bnPartitionedLogEntity (Index p) (- int n) d1 = (None, d2)"
    and rest: "popPartitions b ps d2 = (None, d')"
    by blast
  have j2: "journal d2 = journal d
      @ [OpDelete (Index p) b, OpDeltaUpdateCount bnPartitionedLogEntity (Index p) (- int n)]"
    using Delete_ok(4) [OF s1] deltaUpdateCount_ok(2) [OF s2] by simp
  from Cons.IH [OF rest] obtain ops where
    "journal d' = journal d2 @ ops" "deletes ops = map Index ps"
    by blast
  with j2 have "journal d' = journal d
      @ ([OpDelete (Index p) b, OpDeltaUpdateCount bnPartitionedLogEntity (Index p) (- int n)]
         @ ops)
    \<and> deletes ([OpDelete (Index p) b,
          OpDeltaUpdateCount bnPartitionedLogEntity (Index p) (- int n)] @ ops)
        = map Index (p # ps)"
    by simp
  then show ?case by blast
qed

lemma popPartitions_counts:
  "popPartitions b ps d = (None, d') \<Longrightarrow>
     partitions d' bnPartitionedLogEntity =
       map (\<lambda>q. if Index q \<in> Index ` set ps then q\<lparr>Count := Count q - doomed b d (Index q)\<rparr>
                 else q) (partitions d bnPartitionedLogEntity)
     \<and> (\<forall>q \<in> set (partitions d bnPartitionedLogEntity).
          Index q \<in> Index ` set ps \<longrightarrow> doomed b d (Index q) \<le> Count q)"
proof (induction ps arbitrary: d)
  case Nil
  then show ?case by (simp add: map_idI)
next
  case (Cons p ps)
  from popPartitions_step [OF Cons.prems] obtain n d1 d2 where
    s1: "Delete (Index p) b d = (Inr n, d1)"
    and s2: "deltaUpdateCount bnPartitionedLogEntity (Index p) (- int n) d1 = (None, d2)"
    and rest: "popPartitions b ps d2 = (None, d')"
    by blast
  have n: "n = doomed b d (Index p)"
    using Delete_ok(2) [OF s1] by (simp add: doomed_def)
  have t2: "tables d2 = (tables d)(Index p := filter (\<lambda>row. \<not> b \<le> bn row) (tables d (Index p)))"
    using Delete_ok(1) [OF s1] deltaUpdateCount_ok(1) [OF s2] by simp
  have after: "doomed b d2 i = (if i = Index p then 0 else doomed b d i)" for i
    by (simp add: doomed_def t2)
  have p2: "partitions d2 bnPartitionedLogEntity =
      map (\<lambda>q. if Index q = Index p then q\<lparr>Count := nat (int (Count q) + - int n)\<rparr> else q)
        (partitions d bnPartitionedLogEntity)"
    using deltaUpdateCount_ok(3) [OF s2] Delete_ok(3) [OF s1] by simp
  have enough: "\<forall>q \<in> set (partitions d bnPartitionedLogEntity).
      Index q = Index p \<longrightarrow> n \<le> Count q"
    using deltaUpdateCount_ok(4) [OF s2] Delete_ok(3) [OF s1] by auto
  from Cons.IH [OF rest] have
    ih1: "partitions d' bnPartitionedLogEntity =
       map (\<lambda>q. if Index q \<in> Index ` set ps
                 then q\<lparr>Count := Count q - doomed b d2 (Index q)\<rparr> else q)
         (partitions d2 bnPartitionedLogEntity)"
    and ih2: "\<forall>q \<in> set (partitions d2 bnPartitionedLogEntity).
          Index q \<in> Index ` set ps \<longrightarrow> doomed b d2 (Index q) \<le> Count q"
    by simp_all
  have "partitions d' bnPartitionedLogEntity =
       map (\<lambda>q. if Index q \<in> Index ` set (p # ps)
                 then q\<lparr>Count := Count q - doomed b d (Index q)\<rparr> else q)
         (partitions d bnPartitionedLogEntity)"
    unfolding ih1 p2 map_map
  proof (rule map_cong [OF refl])
    fix q
    assume "q \<in> set (partitions d bnPartitionedLogEntity)"
    show "((\<lambda>q. if Index q \<in> Index ` set ps
                 then q\<lparr>Count := Count q - doomed b d2 (Index q)\<rparr> else q)
           \<circ> (\<lambda>q. if Index q = Index p then q\<lparr>Count := nat (int (Count q) + - int n)\<rparr>
                   else q)) q
        = (if Index q \<in> Index ` set (p # ps)
           then q\<lparr>Count := Count q - doomed b d (Index q)\<rparr> else q)"
    proof (cases "Index q = Index p")
      case True
      with n after show ?thesis by (simp add: nat_diff_distrib')
    next
      case False
      with after show ?thesis by simp
    qed
  qed
  moreover have "\<forall>q \<in> set (partitions d bnPartitionedLogEntity).
          Index q \<in> Index ` set (p # ps) \<longrightarrow> doomed b d (Index q) \<le> Count q"
  proof (intro ballI impI)
    fix q
    assume q: "q \<in> set (partitions d bnPartitionedLogEntity)"
      and i: "Index q \<in> Index ` set (p # ps)"
    show "doomed b d (Index q) \<le> Count q"
    proof (cases "Index q = Index p")
      case True
      with enough q n show ?thesis by simp
    next
      case False
      with i have in_ps: "Index q \<in> Index ` set ps" by auto
      from q False have "q \<in> set (partitions d2 bnPartitionedLogEntity)"
        unfolding p2 by (auto simp: image_iff intro!: bexI [of _ q])
      with ih2 in_ps after False show ?thesis by auto
    qed
  qed
  ultimately show ?case by blast
qed

lemma shrunk_keeps: "Index (shrunk t p) = Index p" "Count (shrunk t p) = Count p"
  by (simp_all add: shrunk_def split: option.splits)

lemma BlockRange_ok:
  "BlockRange e d =
     ((case rejects d (OpBlockRange e) of
         Some err \<Rightarrow> Inl err | None \<Rightarrow> Inr (epochBlockMap d e)),
      d\<lparr>journal := journal d @ [OpBlockRange e]\<rparr>)"
  by (simp add: BlockRange_def issue_def split: option.splits)

lemma shrinkBnRange_ok:
  assumes "shrinkBnRange e t d = (Inr cands, d')"
  shows "cands = sort_key Index (filter (reaches t) (partitions d e))"
    and "tables d' = tables d"
    and "partitions d' e = map (shrunk t) (partitions d e)"
    and "journal d' = journal d @ [OpShrinkBnRange e t]"
  using assms by (auto simp: shrinkBnRange_def issue_def split: option.splits)

lemma Popn_steps:
  assumes "Popn e d = (None, d')"
  shows "\<exists>bnFrom bnTo d2 cands.
      rejects d (OpBlockRange e) = None \<and> epochBlockMap d e = Some (bnFrom, bnTo)
      \<and> shrinkBnRange bnPartitionedLogEntity bnFrom
           (d\<lparr>journal := journal d @ [OpBlockRange e]\<rparr>) = (Inr cands, d2)
      \<and> popPartitions bnFrom (rev cands) d2 = (None, d')"
proof -
  let ?d1 = "d\<lparr>journal := journal d @ [OpBlockRange e]\<rparr>"
  from assms have ok: "rejects d (OpBlockRange e) = None"
    by (cases "rejects d (OpBlockRange e)") (simp_all add: Popn_def BlockRange_ok)
  with assms obtain bnFrom bnTo where m: "epochBlockMap d e = Some (bnFrom, bnTo)"
    by (cases "epochBlockMap d e") (auto simp: Popn_def BlockRange_ok)
  obtain r2 d2 where s: "shrinkBnRange bnPartitionedLogEntity bnFrom ?d1 = (r2, d2)"
    by (cases "shrinkBnRange bnPartitionedLogEntity bnFrom ?d1")
  with assms ok m obtain cands where "r2 = Inr cands"
    by (cases r2) (simp_all add: Popn_def BlockRange_ok)
  with assms ok m s show ?thesis by (simp add: Popn_def BlockRange_ok)
qed

lemma Popn_no_mapping:
  assumes "rejects d (OpBlockRange e) = None" and "epochBlockMap d e = None"
  shows "Popn e d = (Some (Errorf ''no block mapping found for epoch %v'' [e]),
                     d\<lparr>journal := journal d @ [OpBlockRange e]\<rparr>)"
  using assms by (simp add: Popn_def BlockRange_ok)

lemma Popn_effect:
  assumes run: "Popn e d = (None, d')"
  shows "\<exists>bnFrom bnTo. epochBlockMap d e = Some (bnFrom, bnTo)
      \<and> (\<forall>i. tables d' i =
            (if i \<in> Index ` set (candidates bnFrom d)
             then filter (\<lambda>row. bn row < bnFrom) (tables d i) else tables d i))
      \<and> map Index (partitions d' bnPartitionedLogEntity)
          = map Index (partitions d bnPartitionedLogEntity)
      \<and> map Count (partitions d' bnPartitionedLogEntity)
          = map (\<lambda>p. if Index p \<in> Index ` set (candidates bnFrom d)
                      then Count p - doomed bnFrom d (Index p) else Count p)
              (partitions d bnPartitionedLogEntity)
      \<and> (\<forall>p \<in> set (partitions d bnPartitionedLogEntity).
            Index p \<in> Index ` set (candidates bnFrom d)
            \<longrightarrow> doomed bnFrom d (Index p) \<le> Count p)
      \<and> take 2 (drop (length (journal d)) (journal d'))
          = [OpBlockRange e, OpShrinkBnRange bnPartitionedLogEntity bnFrom]
      \<and> sorted (rev (deletes (drop (length (journal d)) (journal d'))))
      \<and> length (deletes (drop (length (journal d)) (journal d')))
          = length (candidates bnFrom d)
      \<and> set (deletes (drop (length (journal d)) (journal d')))
          = Index ` set (candidates bnFrom d)"
proof -
  let ?E = bnPartitionedLogEntity
  let ?d1 = "d\<lparr>journal := journal d @ [OpBlockRange e]\<rparr>"
  from Popn_steps [OF run] obtain bnFrom bnTo d2 cands where
    m: "epochBlockMap d e = Some (bnFrom, bnTo)"
    and s: "shrinkBnRange ?E bnFrom ?d1 = (Inr cands, d2)"
    and l: "popPartitions bnFrom (rev cands) d2 = (None, d')"
    by blast
  have cands: "cands = sort_key Index (candidates bnFrom d)"
    using shrinkBnRange_ok(1) [OF s] by (simp add: candidates_def)
  have t2: "tables d2 = tables d"
    using shrinkBnRange_ok(2) [OF s] by simp
  have p2: "partitions d2 ?E = map (shrunk bnFrom) (partitions d ?E)"
    using shrinkBnRange_ok(3) [OF s] by simp
  have j2: "journal d2 = journal d @ [OpBlockRange e, OpShrinkBnRange ?E bnFrom]"
    using shrinkBnRange_ok(4) [OF s] by simp
  have idx: "Index ` set (rev cands) = Index ` set (candidates bnFrom d)"
    by (simp add: cands)
  have d2d: "doomed bnFrom d2 i = doomed bnFrom d i" for i
    by (simp add: doomed_def t2)
  have tab: "\<forall>i. tables d' i =
            (if i \<in> Index ` set (candidates bnFrom d)
             then filter (\<lambda>row. bn row < bnFrom) (tables d i) else tables d i)"
    using popPartitions_tables [OF l] idx t2 by (simp add: not_le)
  from popPartitions_counts [OF l] have
    c1: "partitions d' ?E =
       map (\<lambda>q. if Index q \<in> Index ` set (candidates bnFrom d)
                 then q\<lparr>Count := Count q - doomed bnFrom d (Index q)\<rparr> else q)
         (map (shrunk bnFrom) (partitions d ?E))"
    and c2: "\<forall>q \<in> set (map (shrunk bnFrom) (partitions d ?E)).
          Index q \<in> Index ` set (candidates bnFrom d) \<longrightarrow> doomed bnFrom d (Index q) \<le> Count q"
    unfolding idx p2 d2d by simp_all
  have pidx: "map Index (partitions d' ?E) = map Index (partitions d ?E)"
    unfolding c1 by (simp add: comp_def shrunk_keeps)
  have pcnt: "map Count (partitions d' ?E)
          = map (\<lambda>p. if Index p \<in> Index ` set (candidates bnFrom d)
                      then Count p - doomed bnFrom d (Index p) else Count p)
              (partitions d ?E)"
    unfolding c1 by (simp add: comp_def shrunk_keeps)
  have bound: "\<forall>p \<in> set (partitions d ?E).
            Index p \<in> Index ` set (candidates bnFrom d)
            \<longrightarrow> doomed bnFrom d (Index p) \<le> Count p"
  proof (intro ballI impI)
    fix p
    assume "p \<in> set (partitions d ?E)" and i: "Index p \<in> Index ` set (candidates bnFrom d)"
    then have "shrunk bnFrom p \<in> set (map (shrunk bnFrom) (partitions d ?E))" by simp
    with c2 i show "doomed bnFrom d (Index p) \<le> Count p"
      by (auto simp: shrunk_keeps simp del: set_map)
  qed
  from popPartitions_journal [OF l] obtain ops where
    ops: "journal d' = journal d2 @ ops" "deletes ops = map Index (rev cands)"
    by blast
  have del: "deletes (drop (length (journal d)) (journal d')) = rev (map Index cands)"
    using ops j2 by (simp add: deletes_append rev_map)
  have srt: "sorted (rev (deletes (drop (length (journal d)) (journal d'))))"
    unfolding del by (simp add: cands)
  have dst: "length (deletes (drop (length (journal d)) (journal d')))
      = length (candidates bnFrom d)"
    unfolding del by (simp add: cands)
  have st: "set (deletes (drop (length (journal d)) (journal d')))
      = Index ` set (candidates bnFrom d)"
    unfolding del by (simp add: cands)
  have first: "take 2 (drop (length (journal d)) (journal d'))
      = [OpBlockRange e, OpShrinkBnRange ?E bnFrom]"
    using ops j2 by simp
  from m tab pidx pcnt bound first srt dst st show ?thesis by blast
qed

text \<open>
  C4. When the block map has no entry for \<open>epochUntil\<close> (and the lookup itself does
  not fail), \<open>Popn\<close> returns an error; the tables and the partition metadata are as
  before, and the lookup is the only operation issued. When \<open>Popn\<close> returns without
  error, the epoch is mapped to a block range and, after the lookup,
  \<open>shrinkBnRange\<close> is called for its first block \<open>bnFrom\<close>. With the
  candidates those it selects: the table of every candidate keeps exactly its rows
  below \<open>bnFrom\<close>, every other table is unchanged; the count of every candidate
  is decreased by exactly the number of its rows at or above \<open>bnFrom\<close> (which the
  count covers), every other count is unchanged; and there is one delete statement
  per candidate, issued from the highest index down to the lowest.
\<close>

theorem Popn_reverts:
  "(rejects d (OpBlockRange e) = None \<and> epochBlockMap d e = None \<longrightarrow>
      (\<exists>err. Popn e d = (Some err, d\<lparr>journal := journal d @ [OpBlockRange e]\<rparr>))
      \<and> tables (snd (Popn e d)) = tables d
      \<and> partitions (snd (Popn e d)) = partitions d)
   \<and> (Popn e d = (None, d') \<longrightarrow>
      (\<exists>bnFrom bnTo. epochBlockMap d e = Some (bnFrom, bnTo)
        \<and> (\<forall>i. tables d' i =
              (if i \<in> Index ` set (candidates bnFrom d)
               then filter (\<lambda>row. bn row < bnFrom) (tables d i) else tables d i))
        \<and> map Index (partitions d' bnPartitionedLogEntity)
            = map Index (partitions d bnPartitionedLogEntity)
        \<and> map Count (partitions d' bnPartitionedLogEntity)
            = map (\<lambda>p. if Index p \<in> Index ` set (candidates bnFrom d)
                        then Count p - length (filter (\<lambda>row. bnFrom \<le> bn row)
                                                 (tables d (Index p)))
                        else Count p)
                (partitions d bnPartitionedLogEntity)
        \<and> (\<forall>p \<in> set (partitions d bnPartitionedLogEntity).
              Index p \<in> Index ` set (candidates bnFrom d)
              \<longrightarrow> length (filter (\<lambda>row. bnFrom \<le> bn row) (tables d (Index p))) \<le> Count p)
        \<and> take 2 (drop (length (journal d)) (journal d'))
            = [OpBlockRange e, OpShrinkBnRange bnPartitionedLogEntity bnFrom]
        \<and> sorted (rev (deletes (drop (length (journal d)) (journal d'))))
        \<and> length (deletes (drop (length (journal d)) (journal d')))
            = length (candidates bnFrom d)
        \<and> set (deletes (drop (length (journal d)) (journal d')))
            = Index ` set (candidates bnFrom d)))"
proof (intro conjI)
  show "rejects d (OpBlockRange e) = None \<and> epochBlockMap d e = None \<longrightarrow>
      (\<exists>err. Popn e d = (Some err, d\<lparr>journal := journal d @ [OpBlockRange e]\<rparr>))
      \<and> tables (snd (Popn e d)) = tables d
      \<and> partitions (snd (Popn e d)) = partitions d"
    using Popn_no_mapping [of d e] by simp
next
  show "Popn e d = (None, d') \<longrightarrow>
      (\<exists>bnFrom bnTo. epochBlockMap d e = Some (bnFrom, bnTo)
        \<and> (\<forall>i. tables d' i =
              (if i \<in> Index ` set (candidates bnFrom d)
               then filter (\<lambda>row. bn row < bnFrom) (tables d i) else tables d i))
        \<and> map Index (partitions d' bnPartitionedLogEntity)
            = map Index (partitions d bnPartitionedLogEntity)
        \<and> map Count (partitions d' bnPartitionedLogEntity)
            = map (\<lambda>p. if Index p \<in> Index ` set (candidates bnFrom d)
                        then Count p - length (filter (\<lambda>row. bnFrom \<le> bn row)
                                                 (tables d (Index p)))
                        else Count p)
                (partitions d bnPartitionedLogEntity)
        \<and> (\<forall>p \<in> set (partitions d bnPartitionedLogEntity).
              Index p \<in> Index ` set (candidates bnFrom d)
              \<longrightarrow> length (filter (\<lambda>row. bnFrom \<le> bn row) (tables d (Index p))) \<le> Count p)
        \<and> take 2 (drop (length (journal d)) (journal d'))
            = [OpBlockRange e, OpShrinkBnRange bnPartitionedLogEntity bnFrom]
        \<and> sorted (rev (deletes (drop (length (journal d)) (journal d'))))
        \<and> length (deletes (drop (length (journal d)) (journal d')))
            = length (candidates bnFrom d)
        \<and> set (deletes (drop (length (journal d)) (journal d')))
            = Index ` set (candidates bnFrom d))"
    using Popn_effect [of e d d'] unfolding doomed_def by blast
qed

lemma demo_Popn_ok: "fst (Popn 7 (demoDb demoParts demoTables)) = None"
  by (simp add: Popn_def BlockRange_ok shrinkBnRange_def issue_def demoDb_def demoParts_def
      demoTables_def demoRow_def ParseCfxLog_def reaches_def shrunk_def Delete_def
      deltaUpdateCount_def countInRange_def bnPartitionedLogEntity_def)

lemma demo_candidates:
  "Index ` set (candidates 70 (demoDb demoParts demoTables)) = {1, 2}"
  by (auto simp: candidates_def demoDb_def demoParts_def reaches_def)

theorem Popn_reverts_witness:
  "fst (Popn 7 (demoDb demoParts demoTables)) = None
   \<and> map bn (tables (snd (Popn 7 (demoDb demoParts demoTables))) 0) = [10]
   \<and> map bn (tables (snd (Popn 7 (demoDb demoParts demoTables))) 1) = [50, 69]
   \<and> map bn (tables (snd (Popn 7 (demoDb demoParts demoTables))) 2) = []
   \<and> map Count (partitions (snd (Popn 7 (demoDb demoParts demoTables))) bnPartitionedLogEntity)
       = [1, 2, 0]
   \<and> fst (Popn 8 (demoDb demoParts demoTables)) \<noteq> None
   \<and> tables (snd (Popn 8 (demoDb demoParts demoTables))) = demoTables
   \<and> partitions (snd (Popn 8 (demoDb demoParts demoTables))) bnPartitionedLogEntity = demoParts"
proof -
  let ?d = "demoDb demoParts demoTables"
  let ?d' = "snd (Popn 7 ?d)"
  have run: "Popn 7 ?d = (None, ?d')"
    using demo_Popn_ok by (metis prod.collapse)
  have m: "epochBlockMap ?d 7 = Some (70, 79)"
    by (simp add: demoDb_def)
  from Popn_reverts [of ?d 7 ?d'] run m have
    t: "\<forall>i. tables ?d' i =
          (if i \<in> Index ` set (candidates 70 ?d)
           then filter (\<lambda>row. bn row < 70) (tables ?d i) else tables ?d i)"
    and c: "map Count (partitions ?d' bnPartitionedLogEntity)
        = map (\<lambda>p. if Index p \<in> Index ` set (candidates 70 ?d)
                    then Count p - length (filter (\<lambda>row. 70 \<le> bn row) (tables ?d (Index p)))
                    else Count p)
            (partitions ?d bnPartitionedLogEntity)"
    by auto
  have t0: "map bn (tables ?d' 0) = [10]"
    and t1: "map bn (tables ?d' 1) = [50, 69]"
    and t2: "map bn (tables ?d' 2) = []"
    unfolding t [rule_format] demo_candidates
    by (simp_all add: demoDb_def demoTables_def demoRow_def ParseCfxLog_def)
  have cnt: "map Count (partitions ?d' bnPartitionedLogEntity) = [1, 2, 0]"
    unfolding c demo_candidates
    by (simp add: demoDb_def demoParts_def demoTables_def demoRow_def ParseCfxLog_def)
  have none: "rejects ?d (OpBlockRange 8) = None \<and> epochBlockMap ?d 8 = None"
    by (simp add: demoDb_def)
  with Popn_reverts [of ?d 8] obtain err where
    "Popn 8 ?d = (Some err, ?d\<lparr>journal := journal ?d @ [OpBlockRange 8]\<rparr>)"
    and "tables (snd (Popn 8 ?d)) = tables ?d"
    and "partitions (snd (Popn 8 ?d)) = partitions ?d"
    by blast
  then have "fst (Popn 8 ?d) \<noteq> None \<and> tables (snd (Popn 8 ?d)) = tables ?d
      \<and> partitions (snd (Popn 8 ?d)) = partitions ?d"
    by simp
  then have e8: "fst (Popn 8 ?d) \<noteq> None \<and> tables (snd (Popn 8 ?d)) = demoTables
      \<and> partitions (snd (Popn 8 ?d)) bnPartitionedLogEntity = demoParts"
    by (simp add: demoDb_def)
  from demo_Popn_ok t0 t1 t2 cnt e8 show ?thesis by simp
qed

end
